theory Spec2Isabelle
  imports Main "HOL-Library.Word"
begin

section \<open>Errors\<close>

text \<open>
  The service signals failure by throwing \<^verbatim>\<open>Error\<close> objects with an attached
  \<^verbatim>\<open>statusCode\<close>; the stores and the libraries throw errors of their own.  Every
  throw of the source is a value of this type.
\<close>

datatype error =
    HttpError nat string
  | PrismaError string
  | RedisError string
  | OtherError string

definition RateLimited :: error where
  "RateLimited = HttpError 429 ''Too many verification attempts. Try again later.''"

definition InvalidRefreshToken :: error where
  "InvalidRefreshToken = HttpError 401 ''Invalid refresh token''"

definition SessionCompromised :: error where
  "SessionCompromised = HttpError 401 ''Invalid refresh token - all sessions invalidated''"

text \<open>\<^verbatim>\<open>InvalidCredential\<close> of the specification is any error thrown with status 400.\<close>

fun InvalidCredential :: "error \<Rightarrow> bool" where
  "InvalidCredential (HttpError c m) = (c = 400)"
| "InvalidCredential _ = False"

section \<open>Libraries and configuration\<close>

record jwt_payload =
  p_userId :: string
  p_sessionId :: string
  p_iat :: nat
  p_exp :: nat

record id_payload =
  sub :: string
  email :: "string option"
  name :: "string option"
  picture :: "string option"

text \<open>
  The third-party functions the code calls are parameters of the model:
  the HS256 serialisation of \<^verbatim>\<open>jsonwebtoken\<close> (a payload signed under a secret,
  and the signature and structure check of a presented string), the time-span
  parser \<^verbatim>\<open>ms\<close> that \<^verbatim>\<open>jsonwebtoken\<close> applies to \<^verbatim>\<open>expiresIn\<close>, the SHA-256
  digest of \<^verbatim>\<open>crypto\<close> (32 bytes), and
  \<^verbatim>\<open>JSON.parse(Buffer.from(s, 'base64').toString())\<close> for identity tokens.
\<close>

record lib =
  lib_jwt_encode :: "string \<Rightarrow> jwt_payload \<Rightarrow> string"
  lib_jwt_decode :: "string \<Rightarrow> string \<Rightarrow> jwt_payload option"
  lib_ms :: "string \<Rightarrow> nat option"
  lib_sha256 :: "string \<Rightarrow> 256 word"
  lib_json_b64 :: "string \<Rightarrow> id_payload option"

record config =
  JWT_ACCESS_SECRET :: string
  JWT_REFRESH_SECRET :: string
  JWT_ACCESS_EXPIRATION :: string
  JWT_REFRESH_EXPIRATION :: string

section \<open>shared/utils/hash.ts\<close>

definition hex_digit :: "nat \<Rightarrow> char" where
  "hex_digit d = ''0123456789abcdef'' ! d"

text \<open>\<^verbatim>\<open>digest('hex')\<close>: \<open>n\<close> lower-case hexadecimal digits, most significant first.\<close>

definition to_hex :: "nat \<Rightarrow> nat \<Rightarrow> string" where
  "to_hex n v = map (\<lambda>i. hex_digit ((v div 16 ^ i) mod 16)) (rev [0..<n])"

definition hashToken :: "lib \<Rightarrow> string \<Rightarrow> string" where
  "hashToken L token = to_hex 64 (unat (lib_sha256 L token))"

fun show_nat :: "nat \<Rightarrow> string" where
  "show_nat n =
     (if n < 10 then [''0123456789'' ! n]
      else show_nat (n div 10) @ [''0123456789'' ! (n mod 10)])"

declare show_nat.simps [simp del]

text \<open>
  \<^verbatim>\<open>crypto.randomInt(100000, 999999).toString()\<close>; the argument is the integer
  the generator returned.
\<close>

definition generateVerificationCode :: "nat \<Rightarrow> string" where
  "generateVerificationCode r = show_nat r"

section \<open>shared/utils/jwt.ts\<close>

text \<open>
  \<^verbatim>\<open>jwt.sign(payload, secret, {expiresIn})\<close> stamps \<open>iat\<close> with the clock in whole
  seconds and \<open>exp\<close> with \<open>iat\<close> plus the span in whole seconds, and throws when
  the span does not parse.  \<^verbatim>\<open>jwt.verify(token, secret)\<close> throws when the string
  does not decode under the secret or when the clock has reached \<open>exp\<close>.
  The clock \<open>now\<close> is in milliseconds.
\<close>

definition jwt_sign :: "lib \<Rightarrow> nat \<Rightarrow> string \<times> string \<Rightarrow> string \<Rightarrow> string \<Rightarrow> error + string" where
  "jwt_sign L now payload secret expiresIn =
     (case lib_ms L expiresIn of
        None \<Rightarrow> Inl (OtherError ''invalid expiresIn option'')
      | Some span \<Rightarrow>
          Inr (lib_jwt_encode L secret
                 \<lparr>p_userId = fst payload, p_sessionId = snd payload,
                  p_iat = now div 1000, p_exp = now div 1000 + span div 1000\<rparr>))"

definition jwt_verify :: "lib \<Rightarrow> nat \<Rightarrow> string \<Rightarrow> string \<Rightarrow> jwt_payload option" where
  "jwt_verify L now token secret =
     (case lib_jwt_decode L secret token of
        None \<Rightarrow> None
      | Some p \<Rightarrow> if p_exp p \<le> now div 1000 then None else Some p)"

definition generateAccessToken :: "lib \<Rightarrow> config \<Rightarrow> nat \<Rightarrow> string \<times> string \<Rightarrow> error + string" where
  "generateAccessToken L cfg now payload =
     jwt_sign L now payload (JWT_ACCESS_SECRET cfg) (JWT_ACCESS_EXPIRATION cfg)"

definition generateRefreshToken :: "lib \<Rightarrow> config \<Rightarrow> nat \<Rightarrow> string \<times> string \<Rightarrow> error + string" where
  "generateRefreshToken L cfg now payload =
     jwt_sign L now payload (JWT_REFRESH_SECRET cfg) (JWT_REFRESH_EXPIRATION cfg)"

definition verifyAccessToken :: "lib \<Rightarrow> config \<Rightarrow> nat \<Rightarrow> string \<Rightarrow> jwt_payload option" where
  "verifyAccessToken L cfg now token = jwt_verify L now token (JWT_ACCESS_SECRET cfg)"

definition verifyRefreshToken :: "lib \<Rightarrow> config \<Rightarrow> nat \<Rightarrow> string \<Rightarrow> jwt_payload option" where
  "verifyRefreshToken L cfg now token = jwt_verify L now token (JWT_REFRESH_SECRET cfg)"

definition is_digit :: "char \<Rightarrow> bool" where
  "is_digit c = (c \<in> set ''0123456789'')"

definition digit_val :: "char \<Rightarrow> nat" where
  "digit_val c = length (takeWhile (\<lambda>d. d \<noteq> c) ''0123456789'')"

definition parseInt10 :: "string \<Rightarrow> nat" where
  "parseInt10 ds = foldl (\<lambda>a c. 10 * a + digit_val c) 0 ds"

text \<open>
  \<^verbatim>\<open>parseDuration\<close>: the string must match \<^verbatim>\<open>/^(\d+)([smhd])$/\<close>; the result is in
  milliseconds.
\<close>

definition parseDuration :: "string \<Rightarrow> error + nat" where
  "parseDuration duration =
     (if 2 \<le> length duration \<and> list_all is_digit (butlast duration)
         \<and> last duration \<in> set ''smhd''
      then
        (let v = parseInt10 (butlast duration); unit = last duration in
         if unit = CHR ''s'' then Inr (v * 1000)
         else if unit = CHR ''m'' then Inr (v * 60 * 1000)
         else if unit = CHR ''h'' then Inr (v * 60 * 60 * 1000)
         else Inr (v * 24 * 60 * 60 * 1000))
      else Inl (OtherError (''Invalid duration format: '' @ duration)))"

section \<open>The fast store (Redis)\<close>

text \<open>
  One keyspace; a key holds a string or a sorted set of (member, score) pairs,
  with an optional absolute expiry in milliseconds.  A key whose expiry has
  been reached is gone for every command.
\<close>

datatype rvalue = RString string | RZSet "(string \<times> nat) list"

record rentry =
  r_value :: rvalue
  r_expiry :: "nat option"

type_synonym redis = "string \<Rightarrow> rentry option"

definition redis_live :: "redis \<Rightarrow> nat \<Rightarrow> string \<Rightarrow> rentry option" where
  "redis_live r now k =
     (case r k of
        None \<Rightarrow> None
      | Some e \<Rightarrow>
          (case r_expiry e of
             None \<Rightarrow> Some e
           | Some t \<Rightarrow> if t \<le> now then None else Some e))"

text \<open>\<^verbatim>\<open>SET key value EX seconds\<close>; Redis refuses a non-positive expire time.\<close>

definition redis_set_ex :: "redis \<Rightarrow> nat \<Rightarrow> string \<Rightarrow> string \<Rightarrow> nat \<Rightarrow> error + redis" where
  "redis_set_ex r now k v seconds =
     (if seconds = 0 then Inl (RedisError ''ERR invalid expire time in set command'')
      else Inr (r(k \<mapsto> \<lparr>r_value = RString v, r_expiry = Some (now + seconds * 1000)\<rparr>)))"

definition redis_get :: "redis \<Rightarrow> nat \<Rightarrow> string \<Rightarrow> error + string option" where
  "redis_get r now k =
     (case redis_live r now k of
        None \<Rightarrow> Inr None
      | Some e \<Rightarrow>
          (case r_value e of
             RString v \<Rightarrow> Inr (Some v)
           | RZSet zs \<Rightarrow> Inl (RedisError ''WRONGTYPE'')))"

definition redis_del :: "redis \<Rightarrow> string \<Rightarrow> redis" where
  "redis_del r k = r(k := None)"

definition redis_exists :: "redis \<Rightarrow> nat \<Rightarrow> string \<Rightarrow> bool" where
  "redis_exists r now k = (redis_live r now k \<noteq> None)"

definition show_int :: "int \<Rightarrow> string" where
  "show_int i = (if i < 0 then CHR ''-'' # show_nat (nat (- i)) else show_nat (nat i))"

definition parse_int :: "string \<Rightarrow> int" where
  "parse_int v =
     (case v of
        [] \<Rightarrow> 0
      | c # ds \<Rightarrow> if c = CHR ''-'' then - int (parseInt10 ds) else int (parseInt10 v))"

text \<open>
  The value of a key as a 64-bit signed integer, as \<^verbatim>\<open>INCR\<close> reads it: the
  canonical decimal form only.
\<close>

definition redis_int :: "string \<Rightarrow> int option" where
  "redis_int v =
     (let i = parse_int v in
      if show_int i = v \<and> - (2 ^ 63) \<le> i \<and> i < 2 ^ 63 then Some i else None)"

text \<open>\<^verbatim>\<open>INCR key\<close>: an absent key counts from 0 and gets no expiry; the expiry of a present key is kept.\<close>

definition redis_incr :: "redis \<Rightarrow> nat \<Rightarrow> string \<Rightarrow> error + (int \<times> redis)" where
  "redis_incr r now k =
     (case redis_live r now k of
        None \<Rightarrow> Inr (1, r(k \<mapsto> \<lparr>r_value = RString ''1'', r_expiry = None\<rparr>))
      | Some e \<Rightarrow>
          (case r_value e of
             RZSet zs \<Rightarrow> Inl (RedisError ''WRONGTYPE'')
           | RString v \<Rightarrow>
               (case redis_int v of
                  None \<Rightarrow> Inl (RedisError ''ERR value is not an integer or out of range'')
                | Some i \<Rightarrow>
                    if 2 ^ 63 \<le> i + 1
                    then Inl (RedisError ''ERR increment or decrement would overflow'')
                    else Inr (i + 1, r(k \<mapsto> e\<lparr>r_value := RString (show_int (i + 1))\<rparr>)))))"

text \<open>\<^verbatim>\<open>EXPIRE key seconds\<close> on a present key; a non-positive time deletes the key.\<close>

definition redis_expire :: "redis \<Rightarrow> nat \<Rightarrow> string \<Rightarrow> nat \<Rightarrow> redis" where
  "redis_expire r now k seconds =
     (case redis_live r now k of
        None \<Rightarrow> r
      | Some e \<Rightarrow>
          if seconds = 0 then r(k := None)
          else r(k \<mapsto> e\<lparr>r_expiry := Some (now + seconds * 1000)\<rparr>))"

text \<open>
  The sorted-set commands of the rate limiter.  Inside a pipeline a command
  that fails (wrong type) reports its error in its own result slot and
  changes nothing; the result slot is \<open>None\<close> then.
\<close>

definition redis_zremrangebyscore :: "redis \<Rightarrow> nat \<Rightarrow> string \<Rightarrow> int \<Rightarrow> int \<Rightarrow> redis" where
  "redis_zremrangebyscore r now k lo hi =
     (case redis_live r now k of
        None \<Rightarrow> r
      | Some e \<Rightarrow>
          (case r_value e of
             RString v \<Rightarrow> r
           | RZSet zs \<Rightarrow>
               (let zs' = filter (\<lambda>(m, s). \<not> (lo \<le> int s \<and> int s \<le> hi)) zs in
                if zs' = [] then r(k := None) else r(k \<mapsto> e\<lparr>r_value := RZSet zs'\<rparr>))))"

definition redis_zcard :: "redis \<Rightarrow> nat \<Rightarrow> string \<Rightarrow> nat option" where
  "redis_zcard r now k =
     (case redis_live r now k of
        None \<Rightarrow> Some 0
      | Some e \<Rightarrow>
          (case r_value e of
             RString v \<Rightarrow> None
           | RZSet zs \<Rightarrow> Some (length zs)))"

definition redis_zadd :: "redis \<Rightarrow> nat \<Rightarrow> string \<Rightarrow> nat \<Rightarrow> string \<Rightarrow> redis" where
  "redis_zadd r now k score member =
     (case redis_live r now k of
        None \<Rightarrow> r(k \<mapsto> \<lparr>r_value = RZSet [(member, score)], r_expiry = None\<rparr>)
      | Some e \<Rightarrow>
          (case r_value e of
             RString v \<Rightarrow> r
           | RZSet zs \<Rightarrow>
               r(k \<mapsto> e\<lparr>r_value := RZSet ((member, score) # filter (\<lambda>(m, s). m \<noteq> member) zs)\<rparr>)))"

section \<open>The durable store (Prisma)\<close>

text \<open>
  The schema file is not part of the sources read here.  The columns are the
  ones the service reads and writes; the unique columns are the ones it passes
  to \<^verbatim>\<open>findUnique\<close> (id, phone, email, googleId, appleId for a user; id for a
  session).  Ids are generated by the store: the generated id is an argument
  of the creating call, and a clash is a unique-constraint error (P2002).
  \<^verbatim>\<open>update\<close> of a missing row is error P2025.  The one update that writes a
  unique column (linking a Google subject) follows a lookup by that very
  value that found no row, so updates raise no unique-constraint error.
\<close>

record user =
  u_id :: string
  u_phone :: "string option"
  u_email :: "string option"
  u_googleId :: "string option"
  u_appleId :: "string option"
  u_displayName :: "string option"
  u_username :: "string option"
  u_avatarUrl :: "string option"
  u_verifiedBadges :: "string list"
  u_lastActiveAt :: nat

record userSession =
  s_id :: string
  s_userId :: string
  refreshTokenHash :: string
  deviceType :: "string option"
  ipAddress :: string
  expiresAt :: nat
  createdAt :: nat

definition clash :: "'a option \<Rightarrow> 'a option \<Rightarrow> bool" where
  "clash a b = (a \<noteq> None \<and> a = b)"

definition user_create :: "user list \<Rightarrow> user \<Rightarrow> error + user list" where
  "user_create us u =
     (if list_ex (\<lambda>x. u_id x = u_id u \<or> clash (u_phone u) (u_phone x)
                      \<or> clash (u_email u) (u_email x)
                      \<or> clash (u_googleId u) (u_googleId x)
                      \<or> clash (u_appleId u) (u_appleId x)) us
      then Inl (PrismaError ''P2002'')
      else Inr (us @ [u]))"

definition user_update :: "user list \<Rightarrow> string \<Rightarrow> (user \<Rightarrow> user) \<Rightarrow> error + user list" where
  "user_update us uid f =
     (case find (\<lambda>x. u_id x = uid) us of
        None \<Rightarrow> Inl (PrismaError ''P2025'')
      | Some u \<Rightarrow> Inr (map (\<lambda>x. if u_id x = uid then f x else x) us))"

definition session_create :: "userSession list \<Rightarrow> userSession \<Rightarrow> error + userSession list" where
  "session_create ss s =
     (if list_ex (\<lambda>x. s_id x = s_id s) ss then Inl (PrismaError ''P2002'')
      else Inr (ss @ [s]))"

definition session_update ::
    "userSession list \<Rightarrow> string \<Rightarrow> (userSession \<Rightarrow> userSession) \<Rightarrow> error + userSession list" where
  "session_update ss sid f =
     (if list_ex (\<lambda>x. s_id x = sid) ss
      then Inr (map (\<lambda>x. if s_id x = sid then f x else x) ss)
      else Inl (PrismaError ''P2025''))"

text \<open>
  \<^verbatim>\<open>findMany({where: {userId}, orderBy: {createdAt: 'desc'}})\<close>.  The store leaves
  the order of rows with equal \<open>createdAt\<close> open; here the later row comes first.
\<close>

definition session_findMany_desc :: "userSession list \<Rightarrow> string \<Rightarrow> userSession list" where
  "session_findMany_desc ss uid = rev (sort_key createdAt (filter (\<lambda>s. s_userId s = uid) ss))"

record world =
  users :: "user list"
  sessions :: "userSession list"
  redis :: redis

section \<open>modules/auth/auth.service.ts\<close>

text \<open>
  Every operation takes the clock \<open>now\<close> (milliseconds; one reading for the
  whole call) and the world, and returns its result or the error thrown,
  together with the world as the call left it: the writes made before a throw
  stay.
\<close>

record authTokens =
  accessToken :: string
  refreshToken :: string
  expiresIn :: nat

record authResponse =
  a_id :: string
  a_phone :: "string option"
  a_email :: "string option"
  a_displayName :: "string option"
  a_username :: "string option"
  a_avatarUrl :: "string option"
  isNewUser :: bool
  tokens :: authTokens

definition verification_key :: "string \<Rightarrow> string" where
  "verification_key phone = ''verification:'' @ phone"

definition attempts_key :: "string \<Rightarrow> string" where
  "attempts_key phone = ''verification:attempts:'' @ phone"

definition session_key :: "string \<Rightarrow> string" where
  "session_key sid = ''session:'' @ sid"

definition sendVerificationCode :: "nat \<Rightarrow> nat \<Rightarrow> string \<Rightarrow> world \<Rightarrow> (error + bool) \<times> world" where
  "sendVerificationCode rnd now phone w =
     (let code = generateVerificationCode rnd; key = verification_key phone in
      case redis_set_ex (redis w) now key code 300 of
        Inl e \<Rightarrow> (Inl e, w)
      | Inr r1 \<Rightarrow>
          (let attemptsKey = attempts_key phone in
           case redis_incr r1 now attemptsKey of
             Inl e \<Rightarrow> (Inl e, w\<lparr>redis := r1\<rparr>)
           | Inr (attempts, r2) \<Rightarrow>
               (let r3 = (if attempts = 1 then redis_expire r2 now attemptsKey 3600 else r2) in
                if attempts > 5 then (Inl RateLimited, w\<lparr>redis := r3\<rparr>)
                else (Inr True, w\<lparr>redis := r3\<rparr>))))"

text \<open>\<^verbatim>\<open>invalidateUserSessions\<close>: one \<^verbatim>\<open>DEL\<close> per session the durable store holds for the user.\<close>

definition invalidateUserSessions :: "string \<Rightarrow> world \<Rightarrow> world" where
  "invalidateUserSessions userId w =
     (let found = filter (\<lambda>s. s_userId s = userId) (sessions w) in
      w\<lparr>redis := foldl redis_del (redis w) (map (\<lambda>s. session_key (s_id s)) found)\<rparr>)"

text \<open>
  The last block of \<^verbatim>\<open>createSession\<close> (``keep max 5 active''): the sessions of
  the user, newest first; those after the fifth are deleted from the durable
  store by id and from the cache one key at a time.
\<close>

definition cleanupSessions :: "string \<Rightarrow> world \<Rightarrow> world" where
  "cleanupSessions userId w =
     (let activeSessions = session_findMany_desc (sessions w) userId in
      if 5 < length activeSessions
      then (let sessionsToDelete = drop 5 activeSessions in
            w\<lparr>sessions := filter (\<lambda>s. s_id s \<notin> set (map s_id sessionsToDelete)) (sessions w),
               redis := foldl redis_del (redis w)
                          (map (\<lambda>s. session_key (s_id s)) sessionsToDelete)\<rparr>)
      else w)"

definition createSession ::
    "lib \<Rightarrow> config \<Rightarrow> string \<Rightarrow> nat \<Rightarrow> string \<Rightarrow> string option \<Rightarrow> string \<Rightarrow> world
       \<Rightarrow> (error + authTokens) \<times> world" where
  "createSession L cfg newId now userId devType ip w =
     (case parseDuration (JWT_REFRESH_EXPIRATION cfg) of
        Inl e \<Rightarrow> (Inl e, w)
      | Inr refreshExpMs \<Rightarrow>
     (case session_create (sessions w)
             \<lparr>s_id = newId, s_userId = userId, refreshTokenHash = [],
              deviceType = (if devType = Some [] then None else devType),
              ipAddress = ip, expiresAt = now + refreshExpMs, createdAt = now\<rparr> of
        Inl e \<Rightarrow> (Inl e, w)
      | Inr ss1 \<Rightarrow>
     (let w1 = w\<lparr>sessions := ss1\<rparr> in
      case generateAccessToken L cfg now (userId, newId) of
        Inl e \<Rightarrow> (Inl e, w1)
      | Inr access \<Rightarrow>
     (case generateRefreshToken L cfg now (userId, newId) of
        Inl e \<Rightarrow> (Inl e, w1)
      | Inr refresh \<Rightarrow>
     (let tokenHash = hashToken L refresh in
      case session_update (sessions w1) newId (\<lambda>s. s\<lparr>refreshTokenHash := tokenHash\<rparr>) of
        Inl e \<Rightarrow> (Inl e, w1)
      | Inr ss2 \<Rightarrow>
     (let w2 = w1\<lparr>sessions := ss2\<rparr>; ttl = refreshExpMs div 1000 in
      case redis_set_ex (redis w2) now (session_key newId) userId ttl of
        Inl e \<Rightarrow> (Inl e, w2)
      | Inr r3 \<Rightarrow>
     (let w3 = w2\<lparr>redis := r3\<rparr> in
      case user_update (users w3) userId (\<lambda>u. u\<lparr>u_lastActiveAt := now\<rparr>) of
        Inl e \<Rightarrow> (Inl e, w3)
      | Inr us4 \<Rightarrow>
     (let w4 = w3\<lparr>users := us4\<rparr>; w5 = cleanupSessions userId w4
      in (Inr \<lparr>accessToken = access, refreshToken = refresh, expiresIn = 900\<rparr>, w5)))))))))"

definition refreshTokens ::
    "lib \<Rightarrow> config \<Rightarrow> nat \<Rightarrow> string \<Rightarrow> string \<Rightarrow> world \<Rightarrow> (error + authTokens) \<times> world" where
  "refreshTokens L cfg now token ip w =
     (case verifyRefreshToken L cfg now token of
        None \<Rightarrow> (Inl InvalidRefreshToken, w)
      | Some payload \<Rightarrow>
     (let tokenHash = hashToken L token in
      case find (\<lambda>s. s_id s = p_sessionId payload \<and> refreshTokenHash s = tokenHash
                       \<and> now < expiresAt s) (sessions w) of
        None \<Rightarrow>
          (let w1 = w\<lparr>sessions := filter (\<lambda>s. s_userId s \<noteq> p_userId payload) (sessions w)\<rparr>;
               w2 = invalidateUserSessions (p_userId payload) w1
           in (Inl SessionCompromised, w2))
      | Some session \<Rightarrow>
     (case generateAccessToken L cfg now (s_userId session, s_id session) of
        Inl e \<Rightarrow> (Inl e, w)
      | Inr newAccess \<Rightarrow>
     (case generateRefreshToken L cfg now (s_userId session, s_id session) of
        Inl e \<Rightarrow> (Inl e, w)
      | Inr newRefresh \<Rightarrow>
     (let newTokenHash = hashToken L newRefresh in
      case parseDuration (JWT_REFRESH_EXPIRATION cfg) of
        Inl e \<Rightarrow> (Inl e, w)
      | Inr refreshExpMs \<Rightarrow>
     (case session_update (sessions w) (s_id session)
             (\<lambda>s. s\<lparr>refreshTokenHash := newTokenHash, ipAddress := ip,
                     expiresAt := now + refreshExpMs\<rparr>) of
        Inl e \<Rightarrow> (Inl e, w)
      | Inr ss1 \<Rightarrow>
     (let w1 = w\<lparr>sessions := ss1\<rparr>; ttl = refreshExpMs div 1000 in
      case redis_set_ex (redis w1) now (session_key (s_id session)) (s_userId session) ttl of
        Inl e \<Rightarrow> (Inl e, w1)
      | Inr r2 \<Rightarrow>
          (Inr \<lparr>accessToken = newAccess, refreshToken = newRefresh, expiresIn = 900\<rparr>,
           w1\<lparr>redis := r2\<rparr>))))))))"

text \<open>\<^verbatim>\<open>logout\<close>: the error of deleting a missing row is caught and dropped.\<close>

definition logout :: "string \<Rightarrow> world \<Rightarrow> world" where
  "logout sessionId w =
     w\<lparr>sessions := filter (\<lambda>s. s_id s \<noteq> sessionId) (sessions w),
       redis := redis_del (redis w) (session_key sessionId)\<rparr>"

record verifyCodeInput =
  v_phone :: string
  v_code :: string
  v_deviceType :: "string option"

record googleAuthInput =
  g_idToken :: string
  g_deviceType :: "string option"

record appleAuthInput =
  ap_identityToken :: string
  ap_authorizationCode :: string
  ap_fullName :: "(string option \<times> string option) option"
  ap_deviceType :: "string option"

definition respond :: "user \<Rightarrow> bool \<Rightarrow> authTokens \<Rightarrow> authResponse" where
  "respond u isNew t =
     \<lparr>a_id = u_id u, a_phone = u_phone u, a_email = u_email u,
      a_displayName = u_displayName u, a_username = u_username u,
      a_avatarUrl = u_avatarUrl u, isNewUser = isNew, tokens = t\<rparr>"

definition blank_user :: "string \<Rightarrow> nat \<Rightarrow> user" where
  "blank_user uid now =
     \<lparr>u_id = uid, u_phone = None, u_email = None, u_googleId = None, u_appleId = None,
      u_displayName = None, u_username = None, u_avatarUrl = None,
      u_verifiedBadges = [], u_lastActiveAt = now\<rparr>"

text \<open>
  The tail shared by the three entry points: with the user row resolved (or
  the store's error), create the session and build the response.
\<close>

definition finish ::
    "lib \<Rightarrow> config \<Rightarrow> string \<Rightarrow> nat \<Rightarrow> string option \<Rightarrow> string \<Rightarrow> bool \<Rightarrow> string
       \<Rightarrow> world \<Rightarrow> error + user list \<Rightarrow> (error + authResponse) \<times> world" where
  "finish L cfg newSessionId now devType ip isNew uid w res =
     (case res of
        Inl e \<Rightarrow> (Inl e, w)
      | Inr us \<Rightarrow>
          (let w1 = w\<lparr>users := us\<rparr> in
           case find (\<lambda>x. u_id x = uid) us of
             None \<Rightarrow> (Inl (PrismaError ''P2025''), w1)
           | Some u \<Rightarrow>
               (case createSession L cfg newSessionId now uid devType ip w1 of
                  (Inl e, w2) \<Rightarrow> (Inl e, w2)
                | (Inr t, w2) \<Rightarrow> (Inr (respond u isNew t), w2))))"

definition verifyPhoneCode ::
    "lib \<Rightarrow> config \<Rightarrow> string \<Rightarrow> string \<Rightarrow> nat \<Rightarrow> verifyCodeInput \<Rightarrow> string \<Rightarrow> world
       \<Rightarrow> (error + authResponse) \<times> world" where
  "verifyPhoneCode L cfg newUserId newSessionId now input ip w =
     (let key = verification_key (v_phone input) in
      case redis_get (redis w) now key of
        Inl e \<Rightarrow> (Inl e, w)
      | Inr storedCode \<Rightarrow>
          if storedCode = None \<or> storedCode = Some []
          then (Inl (HttpError 400 ''Verification code expired or not found''), w)
          else if storedCode \<noteq> Some (v_code input)
          then (Inl (HttpError 400 ''Invalid verification code''), w)
          else
            (let w1 = w\<lparr>redis := redis_del (redis w) key\<rparr> in
             case find (\<lambda>x. u_phone x = Some (v_phone input)) (users w1) of
               None \<Rightarrow>
                 finish L cfg newSessionId now (v_deviceType input) ip True newUserId w1
                   (user_create (users w1)
                      ((blank_user newUserId now)
                         \<lparr>u_phone := Some (v_phone input), u_verifiedBadges := [''PHONE'']\<rparr>))
             | Some u \<Rightarrow>
                 finish L cfg newSessionId now (v_deviceType input) ip False (u_id u) w1
                   (if ''PHONE'' \<notin> set (u_verifiedBadges u)
                    then user_update (users w1) (u_id u)
                           (\<lambda>x. x\<lparr>u_verifiedBadges := u_verifiedBadges x @ [''PHONE'']\<rparr>)
                    else Inr (users w1))))"

text \<open>\<^verbatim>\<open>String.prototype.split\<close> on a one-character separator.\<close>

fun split_on :: "char \<Rightarrow> string \<Rightarrow> string list" where
  "split_on c [] = [[]]"
| "split_on c (x # xs) =
     (if x = c then [] # split_on c xs
      else (case split_on c xs of [] \<Rightarrow> [[x]] | y # ys \<Rightarrow> (x # y) # ys))"

definition decode_identity :: "lib \<Rightarrow> string \<Rightarrow> id_payload option" where
  "decode_identity L token =
     (let tokenParts = split_on CHR ''.'' token in
      if length tokenParts \<noteq> 3 then None else lib_json_b64 L (tokenParts ! 1))"

definition truthy :: "string option \<Rightarrow> bool" where
  "truthy x = (x \<noteq> None \<and> x \<noteq> Some [])"

definition authenticateWithGoogle ::
    "lib \<Rightarrow> config \<Rightarrow> string \<Rightarrow> string \<Rightarrow> nat \<Rightarrow> googleAuthInput \<Rightarrow> string \<Rightarrow> world
       \<Rightarrow> (error + authResponse) \<times> world" where
  "authenticateWithGoogle L cfg newUserId newSessionId now input ip w =
     (case decode_identity L (g_idToken input) of
        None \<Rightarrow> (Inl (HttpError 400 ''Invalid Google ID token''), w)
      | Some googlePayload \<Rightarrow>
          (case find (\<lambda>x. u_googleId x = Some (sub googlePayload)) (users w) of
             Some u \<Rightarrow>
               finish L cfg newSessionId now (g_deviceType input) ip False (u_id u) w (Inr (users w))
           | None \<Rightarrow>
               (case (if truthy (email googlePayload)
                      then find (\<lambda>x. u_email x = email googlePayload) (users w) else None) of
                  Some existingUser \<Rightarrow>
                    finish L cfg newSessionId now (g_deviceType input) ip True (u_id existingUser) w
                      (user_update (users w) (u_id existingUser)
                         (\<lambda>x. x\<lparr>u_googleId := Some (sub googlePayload),
                                 u_verifiedBadges :=
                                   (if ''GOOGLE'' \<in> set (u_verifiedBadges existingUser)
                                    then u_verifiedBadges existingUser
                                    else u_verifiedBadges existingUser @ [''GOOGLE''])\<rparr>))
                | None \<Rightarrow>
                    finish L cfg newSessionId now (g_deviceType input) ip True newUserId w
                      (user_create (users w)
                         ((blank_user newUserId now)
                            \<lparr>u_googleId := Some (sub googlePayload),
                             u_email := email googlePayload,
                             u_displayName := name googlePayload,
                             u_avatarUrl := picture googlePayload,
                             u_verifiedBadges := [''GOOGLE'']\<rparr>)))))"

text \<open>\<^verbatim>\<open>[givenName, familyName].filter(Boolean).join(' ') || null\<close>\<close>

definition apple_displayName :: "(string option \<times> string option) option \<Rightarrow> string option" where
  "apple_displayName fullName =
     (case fullName of
        None \<Rightarrow> None
      | Some (given, family) \<Rightarrow>
          (let parts = map the (filter truthy [given, family]);
               joined = (case parts of [] \<Rightarrow> [] | [a] \<Rightarrow> a | a # b # _ \<Rightarrow> a @ '' '' @ b)
           in if joined = [] then None else Some joined))"

definition authenticateWithApple ::
    "lib \<Rightarrow> config \<Rightarrow> string \<Rightarrow> string \<Rightarrow> nat \<Rightarrow> appleAuthInput \<Rightarrow> string \<Rightarrow> world
       \<Rightarrow> (error + authResponse) \<times> world" where
  "authenticateWithApple L cfg newUserId newSessionId now input ip w =
     (case decode_identity L (ap_identityToken input) of
        None \<Rightarrow> (Inl (HttpError 400 ''Invalid Apple identity token''), w)
      | Some applePayload \<Rightarrow>
          (case find (\<lambda>x. u_appleId x = Some (sub applePayload)) (users w) of
             Some u \<Rightarrow>
               finish L cfg newSessionId now (ap_deviceType input) ip False (u_id u) w (Inr (users w))
           | None \<Rightarrow>
               finish L cfg newSessionId now (ap_deviceType input) ip True newUserId w
                 (user_create (users w)
                    ((blank_user newUserId now)
                       \<lparr>u_appleId := Some (sub applePayload),
                        u_email := email applePayload,
                        u_displayName := apple_displayName (ap_fullName input),
                        u_verifiedBadges := [''APPLE'']\<rparr>))))"

section \<open>shared/middleware/auth.middleware.ts\<close>

text \<open>
  \<^verbatim>\<open>authenticate\<close> either attaches \<open>(userId, sessionId)\<close> to the request or
  sends a 401 reply.  Everything after the header check runs inside one
  \<^verbatim>\<open>try\<close>; whatever is thrown there becomes the same 401.
\<close>

definition authenticate ::
    "lib \<Rightarrow> config \<Rightarrow> nat \<Rightarrow> string option \<Rightarrow> world \<Rightarrow> (error + string \<times> string) \<times> world" where
  "authenticate L cfg now authHeader w =
     (case authHeader of
        None \<Rightarrow> (Inl (HttpError 401 ''Missing or invalid authorization header''), w)
      | Some h \<Rightarrow>
          if take 7 h \<noteq> ''Bearer ''
          then (Inl (HttpError 401 ''Missing or invalid authorization header''), w)
          else
            (let token = drop 7 h in
             case verifyAccessToken L cfg now token of
               None \<Rightarrow> (Inl (HttpError 401 ''Invalid or expired token''), w)
             | Some payload \<Rightarrow>
                 (let sessionKey = session_key (p_sessionId payload);
                      ok = Inr (p_userId payload, p_sessionId payload) in
                  if redis_exists (redis w) now sessionKey then (ok, w)
                  else
                    (case find (\<lambda>s. s_id s = p_sessionId payload) (sessions w) of
                       None \<Rightarrow> (Inl (HttpError 401 ''Session expired''), w)
                     | Some session \<Rightarrow>
                         if expiresAt session < now
                         then (Inl (HttpError 401 ''Session expired''), w)
                         else
                           (let ttl = (expiresAt session - now) div 1000 in
                            if 0 < ttl
                            then (case redis_set_ex (redis w) now sessionKey (s_userId session) ttl of
                                    Inl e \<Rightarrow> (Inl (HttpError 401 ''Invalid or expired token''), w)
                                  | Inr r1 \<Rightarrow> (ok, w\<lparr>redis := r1\<rparr>))
                            else (ok, w))))))"

section \<open>shared/middleware/rate-limit.middleware.ts\<close>

record request =
  req_ip :: string
  req_url :: string

record rateLimitOptions =
  opt_max :: nat
  opt_windowSeconds :: nat
  opt_prefix :: "string option"
  opt_keyGenerator :: "(request \<Rightarrow> string) option"

record reply =
  headers :: "(string \<times> int) list"
  sent :: "error option"

definition rate_key :: "rateLimitOptions \<Rightarrow> request \<Rightarrow> string" where
  "rate_key opts req =
     (let prefix = (case opt_prefix opts of None \<Rightarrow> ''rl'' | Some p \<Rightarrow> p);
          identifier = (case opt_keyGenerator opts of None \<Rightarrow> req_ip req | Some g \<Rightarrow> g req)
      in prefix @ '':'' @ req_url req @ '':'' @ identifier)"

text \<open>
  The handler \<^verbatim>\<open>createRateLimiter(options)\<close> returns.  \<open>rnd\<close> is the text of
  \<^verbatim>\<open>Math.random()\<close>; \<open>up\<close> says whether \<^verbatim>\<open>pipeline.exec()\<close> resolves (when it
  rejects, the handler logs and lets the request through).
\<close>

definition createRateLimiter ::
    "rateLimitOptions \<Rightarrow> bool \<Rightarrow> string \<Rightarrow> nat \<Rightarrow> request \<Rightarrow> redis \<Rightarrow> reply \<times> redis" where
  "createRateLimiter opts up rnd now req r =
     (let key = rate_key opts req;
          windowStart = int now - int (opt_windowSeconds opts) * 1000
      in if \<not> up then (\<lparr>headers = [], sent = None\<rparr>, r)
         else
           (let r1 = redis_zremrangebyscore r now key 0 windowStart;
                card = redis_zcard r1 now key;
                r2 = redis_zadd r1 now key now (show_nat now @ '':'' @ rnd);
                r3 = redis_expire r2 now key (opt_windowSeconds opts);
                currentCount = (case card of None \<Rightarrow> 0 | Some c \<Rightarrow> c);
                hs = [(''X-RateLimit-Limit'', int (opt_max opts)),
                      (''X-RateLimit-Remaining'',
                         max 0 (int (opt_max opts) - int currentCount - 1)),
                      (''X-RateLimit-Reset'',
                         int ((now + opt_windowSeconds opts * 1000 + 999) div 1000))]
            in if opt_max opts \<le> currentCount
               then (\<lparr>headers = hs @ [(''Retry-After'', int (opt_windowSeconds opts))],
                      sent = Some (HttpError 429 ''Rate limit exceeded. Please try again later.'')\<rparr>,
                     r3)
               else (\<lparr>headers = hs, sent = None\<rparr>, r3)))"

section \<open>Assumptions on the environment\<close>

text \<open>
  What the theorems below ask of the libraries and the configuration: a token
  signed under a secret decodes under it to the payload signed; the refresh
  lifetime parses and is at least one second; both lifetimes are accepted by
  \<^verbatim>\<open>jsonwebtoken\<close>.
\<close>

definition jwt_roundtrip :: "lib \<Rightarrow> bool" where
  "jwt_roundtrip L = (\<forall>k p. lib_jwt_decode L k (lib_jwt_encode L k p) = Some p)"

definition config_ok :: "lib \<Rightarrow> config \<Rightarrow> bool" where
  "config_ok L cfg =
     ((case parseDuration (JWT_REFRESH_EXPIRATION cfg) of Inl e \<Rightarrow> False | Inr m \<Rightarrow> 1000 \<le> m)
      \<and> lib_ms L (JWT_ACCESS_EXPIRATION cfg) \<noteq> None
      \<and> lib_ms L (JWT_REFRESH_EXPIRATION cfg) \<noteq> None)"


section \<open>A reference instance\<close>

text \<open>
  A small concrete library and configuration on which the definitions can be
  run: a token is the secret and the payload fields, each written behind its
  length in unary.
\<close>

definition demo_field :: "string \<Rightarrow> string" where
  "demo_field x = replicate (length x) CHR ''+'' @ CHR ''|'' # x"

definition demo_split :: "string \<Rightarrow> string \<times> string" where
  "demo_split t =
     (let n = length (takeWhile (\<lambda>c. c = CHR ''+'') t)
      in (take n (drop (Suc n) t), drop (Suc n + n) t))"

definition demo_encode :: "string \<Rightarrow> jwt_payload \<Rightarrow> string" where
  "demo_encode k p =
     demo_field k @ demo_field (p_userId p) @ demo_field (p_sessionId p)
       @ demo_field (replicate (p_iat p) CHR ''i'') @ demo_field (replicate (p_exp p) CHR ''e'')"

definition demo_decode :: "string \<Rightarrow> string \<Rightarrow> jwt_payload option" where
  "demo_decode k t =
     (let (k', t1) = demo_split t; (u, t2) = demo_split t1; (s, t3) = demo_split t2;
          (i, t4) = demo_split t3; (e, t5) = demo_split t4;
          p = \<lparr>p_userId = u, p_sessionId = s, p_iat = length i, p_exp = length e\<rparr>
      in if k' = k \<and> t = demo_encode k p then Some p else None)"

definition demo_json :: "string \<Rightarrow> id_payload option" where
  "demo_json s =
     (if s = ''google''
      then Some \<lparr>sub = ''g-1'', email = Some ''a@example.com'', name = Some ''Ann'', picture = None\<rparr>
      else if s = ''apple''
      then Some \<lparr>sub = ''a-1'', email = Some ''a@example.com'', name = None, picture = None\<rparr>
      else None)"

definition demo_lib :: lib where
  "demo_lib =
     \<lparr>lib_jwt_encode = demo_encode, lib_jwt_decode = demo_decode,
      lib_ms = (\<lambda>s. case parseDuration s of Inl e \<Rightarrow> None | Inr n \<Rightarrow> Some n),
      lib_sha256 = (\<lambda>s. word_of_nat (length s)),
      lib_json_b64 = demo_json\<rparr>"

definition demo_cfg :: config where
  "demo_cfg =
     \<lparr>JWT_ACCESS_SECRET = ''access-secret'', JWT_REFRESH_SECRET = ''refresh-secret'',
      JWT_ACCESS_EXPIRATION = ''15m'', JWT_REFRESH_EXPIRATION = ''30d''\<rparr>"

definition demo_user :: "string \<Rightarrow> user" where
  "demo_user uid = blank_user uid 0"

definition demo_session :: "string \<Rightarrow> string \<Rightarrow> string \<Rightarrow> nat \<Rightarrow> nat \<Rightarrow> userSession" where
  "demo_session sid uid h created expires =
     \<lparr>s_id = sid, s_userId = uid, refreshTokenHash = h, deviceType = None,
      ipAddress = ''10.0.0.1'', expiresAt = expires, createdAt = created\<rparr>"

definition demo_refresh :: "string \<Rightarrow> string \<Rightarrow> nat \<Rightarrow> nat \<Rightarrow> string" where
  "demo_refresh uid sid i e =
     lib_jwt_encode demo_lib (JWT_REFRESH_SECRET demo_cfg)
       \<lparr>p_userId = uid, p_sessionId = sid, p_iat = i, p_exp = e\<rparr>"

definition demo_access :: "string \<Rightarrow> string \<Rightarrow> nat \<Rightarrow> nat \<Rightarrow> string" where
  "demo_access uid sid i e =
     lib_jwt_encode demo_lib (JWT_ACCESS_SECRET demo_cfg)
       \<lparr>p_userId = uid, p_sessionId = sid, p_iat = i, p_exp = e\<rparr>"

definition demo_world_placeholder :: world where
  "demo_world_placeholder =
     \<lparr>users = [demo_user ''u1''],
      sessions = [demo_session ''s1'' ''u1'' [] 1000 2592001000],
      redis = Map.empty\<rparr>"

definition demo_world_attempts :: world where
  "demo_world_attempts =
     \<lparr>users = [], sessions = [],
      redis = Map.empty(attempts_key ''+14155551234'' \<mapsto>
                \<lparr>r_value = RString ''5'', r_expiry = Some 3600000\<rparr>)\<rparr>"

definition demo_world_empty :: world where
  "demo_world_empty = \<lparr>users = [], sessions = [], redis = Map.empty\<rparr>"

definition demo_world_challenge :: world where
  "demo_world_challenge =
     \<lparr>users = [], sessions = [],
      redis = Map.empty(verification_key ''+14155551234'' \<mapsto>
                \<lparr>r_value = RString ''123456'', r_expiry = Some 300000\<rparr>)\<rparr>"

definition demo_input :: "string \<Rightarrow> verifyCodeInput" where
  "demo_input code = \<lparr>v_phone = ''+14155551234'', v_code = code, v_deviceType = Some ''ios''\<rparr>"

definition fails_with :: "(error \<Rightarrow> bool) \<Rightarrow> error + 'a \<Rightarrow> bool" where
  "fails_with P res = (case res of Inl e \<Rightarrow> P e | Inr x \<Rightarrow> False)"

definition demo_world_cached :: world where
  "demo_world_cached =
     \<lparr>users = [demo_user ''u1''],
      sessions = [demo_session ''s2'' ''u1'' (hashToken demo_lib (demo_refresh ''u1'' ''s2'' 1 2592001))
                    1000 2592001000],
      redis = Map.empty(session_key ''s2'' \<mapsto>
                \<lparr>r_value = RString ''u1'', r_expiry = Some 2592001000\<rparr>)\<rparr>"

definition demo_google :: googleAuthInput where
  "demo_google = \<lparr>g_idToken = ''h.google.s'', g_deviceType = None\<rparr>"

definition demo_apple :: appleAuthInput where
  "demo_apple =
     \<lparr>ap_identityToken = ''h.apple.s'', ap_authorizationCode = ''code'',
      ap_fullName = None, ap_deviceType = None\<rparr>"

text \<open>
  A finite sequence of \<open>createSession\<close> calls for one account, each with the id
  the store generates, the clock, the device label and the address; the
  result and the world after each call.
\<close>

fun createSession_calls ::
    "lib \<Rightarrow> config \<Rightarrow> string \<Rightarrow> (string \<times> nat \<times> string option \<times> string) list \<Rightarrow> world
       \<Rightarrow> ((error + authTokens) \<times> world) list" where
  "createSession_calls L cfg userId [] w = []"
| "createSession_calls L cfg userId ((newId, now, d, ip) # cs) w =
     (let r = createSession L cfg newId now userId d ip w
      in r # createSession_calls L cfg userId cs (snd r))"

definition demo_world_five :: world where
  "demo_world_five =
     \<lparr>users = [demo_user ''u1''],
      sessions = [demo_session ''s1'' ''u1'' ''h1'' 1000 2592001000,
                  demo_session ''s2'' ''u1'' ''h2'' 2000 2592002000,
                  demo_session ''s3'' ''u1'' ''h3'' 3000 2592003000,
                  demo_session ''s4'' ''u1'' ''h4'' 4000 2592004000,
                  demo_session ''s5'' ''u1'' ''h5'' 5000 2592005000],
      redis = Map.empty(session_key ''s1'' \<mapsto>
                \<lparr>r_value = RString ''u1'', r_expiry = Some 2592001000\<rparr>)\<rparr>"

definition demo_tokens :: "string \<Rightarrow> string \<Rightarrow> nat \<Rightarrow> authTokens" where
  "demo_tokens uid sid i =
     \<lparr>accessToken = demo_access uid sid i (i + 900),
      refreshToken = demo_refresh uid sid i (i + 2592000), expiresIn = 900\<rparr>"



section \<open>Rate limiting: runs and reference policies\<close>

text \<open>
  A run of the handler for one route and one client: the clock and the text of
  \<^verbatim>\<open>Math.random()\<close> of each request in turn, with the store reachable; for each
  request, whether it was rejected.
\<close>

fun rateLimit_calls ::
    "rateLimitOptions \<Rightarrow> request \<Rightarrow> (nat \<times> string) list \<Rightarrow> redis \<Rightarrow> bool list" where
  "rateLimit_calls opts req [] r = []"
| "rateLimit_calls opts req ((now, rnd) # cs) r =
     (let res = createRateLimiter opts True rnd now req r
      in (sent (fst res) \<noteq> None) # rateLimit_calls opts req cs (snd res))"

text \<open>
  Fixed-window counting as the specification words it: one counter that
  starts at the first attempt of a window, rejects once it has reached the
  maximum, and starts afresh \<open>windowSeconds\<close> after that first attempt.  The
  state is the start of the current window and its count.
\<close>

fun fixed_window :: "nat \<Rightarrow> nat \<Rightarrow> (nat \<times> nat) option \<Rightarrow> nat list \<Rightarrow> bool list" where
  "fixed_window mx ws st [] = []"
| "fixed_window mx ws st (t # ts) =
     (let cur = (case st of
                   None \<Rightarrow> (t, 0)
                 | Some (start, n) \<Rightarrow> if t < start + ws * 1000 then (start, n) else (t, 0))
      in (mx \<le> snd cur) # fixed_window mx ws (Some (fst cur, Suc (snd cur))) ts)"

text \<open>
  A sliding window over a log: every request is recorded with its time, and a
  request is rejected when the requests of the last \<open>windowSeconds\<close> already
  number the maximum.  \<open>prev\<close> holds the times recorded so far.
\<close>

fun sliding_window :: "nat \<Rightarrow> nat \<Rightarrow> nat list \<Rightarrow> nat list \<Rightarrow> bool list" where
  "sliding_window mx ws prev [] = []"
| "sliding_window mx ws prev (t # ts) =
     (mx \<le> length (filter (\<lambda>s. int t - int ws * 1000 < int s) prev))
       # sliding_window mx ws (t # prev) ts"

definition demo_opts :: rateLimitOptions where
  "demo_opts = \<lparr>opt_max = 2, opt_windowSeconds = 10, opt_prefix = None, opt_keyGenerator = None\<rparr>"

definition demo_req :: request where
  "demo_req = \<lparr>req_ip = ''10.0.0.1'', req_url = ''/x''\<rparr>"

definition demo_hits :: "(nat \<times> string) list" where
  "demo_hits = [(100000, ''a''), (109000, ''b''), (111000, ''c''), (112000, ''d'')]"

text \<open>The member the handler adds for a request: \<^verbatim>\<open>`${now}:${Math.random()}`\<close>.\<close>

definition rate_member :: "nat \<times> string \<Rightarrow> string" where
  "rate_member c = show_nat (fst c) @ '':'' @ snd c"

section \<open>Worlds reachable by later calls\<close>

text \<open>
  \<open>reach L cfg t0 w w'\<close>: \<open>w'\<close> is \<open>w\<close> after any finite number of calls of the
  service, the middleware and the rate limiter, each at a clock reading of
  \<open>t0\<close> or later, with any arguments and any outcome.
\<close>

inductive reach :: "lib \<Rightarrow> config \<Rightarrow> nat \<Rightarrow> world \<Rightarrow> world \<Rightarrow> bool"
  for L :: lib and cfg :: config and t0 :: nat and w :: world where
  reach_start: "reach L cfg t0 w w"
| reach_send:
    "reach L cfg t0 w w1 \<Longrightarrow> t0 \<le> now
       \<Longrightarrow> reach L cfg t0 w (snd (sendVerificationCode rnd now phone w1))"
| reach_verify:
    "reach L cfg t0 w w1 \<Longrightarrow> t0 \<le> now
       \<Longrightarrow> reach L cfg t0 w (snd (verifyPhoneCode L cfg nu ns now input ip w1))"
| reach_google:
    "reach L cfg t0 w w1 \<Longrightarrow> t0 \<le> now
       \<Longrightarrow> reach L cfg t0 w (snd (authenticateWithGoogle L cfg nu ns now ginput ip w1))"
| reach_apple:
    "reach L cfg t0 w w1 \<Longrightarrow> t0 \<le> now
       \<Longrightarrow> reach L cfg t0 w (snd (authenticateWithApple L cfg nu ns now ainput ip w1))"
| reach_refresh:
    "reach L cfg t0 w w1 \<Longrightarrow> t0 \<le> now
       \<Longrightarrow> reach L cfg t0 w (snd (refreshTokens L cfg now tok ip w1))"
| reach_logout:
    "reach L cfg t0 w w1 \<Longrightarrow> reach L cfg t0 w (logout sid w1)"
| reach_authenticate:
    "reach L cfg t0 w w1 \<Longrightarrow> t0 \<le> now
       \<Longrightarrow> reach L cfg t0 w (snd (authenticate L cfg now hdr w1))"
| reach_rateLimit:
    "reach L cfg t0 w w1 \<Longrightarrow> t0 \<le> now
       \<Longrightarrow> reach L cfg t0 w (w1\<lparr>redis := snd (createRateLimiter opts up rnd now req (redis w1))\<rparr>)"

text \<open>
  No refresh token the server can issue has the digest of \<open>tok\<close> unless it is
  \<open>tok\<close>: the collision freedom that comparing digests instead of tokens
  relies on.
\<close>

definition no_collision :: "lib \<Rightarrow> config \<Rightarrow> string \<Rightarrow> bool" where
  "no_collision L cfg tok =
     (\<forall>p. hashToken L (lib_jwt_encode L (JWT_REFRESH_SECRET cfg) p) = hashToken L tok
            \<longrightarrow> lib_jwt_encode L (JWT_REFRESH_SECRET cfg) p = tok)"

definition rotation_fails :: "error + authTokens \<Rightarrow> bool" where
  "rotation_fails res = (res = Inl InvalidRefreshToken \<or> res = Inl SessionCompromised)"

text \<open>
  Which refresh-token digests the session rows can hold.  \<open>G h\<close> says digest
  \<open>h\<close> is acceptable; it holds of the placeholder and of the digest of every
  refresh token issued at \<open>now\<close>.
\<close>

definition issued_ok :: "lib \<Rightarrow> config \<Rightarrow> (string \<Rightarrow> bool) \<Rightarrow> nat \<Rightarrow> bool" where
  "issued_ok L cfg G now =
     (G [] \<and> (\<forall>uid sid e. G (hashToken L (lib_jwt_encode L (JWT_REFRESH_SECRET cfg)
                  \<lparr>p_userId = uid, p_sessionId = sid, p_iat = now div 1000, p_exp = e\<rparr>))))"

definition rows_ok :: "string \<Rightarrow> (string \<Rightarrow> bool) \<Rightarrow> world \<Rightarrow> bool" where
  "rows_ok sid G w = (\<forall>s \<in> set (sessions w). s_id s = sid \<longrightarrow> G (refreshTokenHash s))"

definition demo_world_user :: world where
  "demo_world_user = \<lparr>users = [demo_user ''u1''], sessions = [], redis = Map.empty\<rparr>"

text \<open>The world after account \<open>u1\<close> has signed in at 6.000 s: one active session \<open>s1\<close>.\<close>

definition demo_world_active :: "lib \<Rightarrow> world" where
  "demo_world_active L =
     snd (createSession L demo_cfg ''s1'' 6000 ''u1'' None ''10.0.0.1'' demo_world_user)"

text \<open>The reference library with a digest that sets one token apart from all other strings.\<close>

definition demo_marked :: lib where
  "demo_marked =
     demo_lib\<lparr>lib_sha256 := (\<lambda>s. if s = demo_refresh ''u1'' ''s1'' 6 2592006 then 1 else 0)\<rparr>"

section \<open>Properties of the utilities\<close>

lemma takeWhile_replicate_stop:
  "b \<noteq> a \<Longrightarrow> takeWhile (\<lambda>c. c = a) (replicate n a @ b # ys) = replicate n a"
  by (induction n) auto

lemma demo_split_field: "demo_split (demo_field x @ rest) = (x, rest)"
proof -
  have "takeWhile (\<lambda>c. c = CHR ''+'') (replicate (length x) CHR ''+'' @ CHR ''|'' # x @ rest)
        = replicate (length x) CHR ''+''"
    by (rule takeWhile_replicate_stop) simp
  then show ?thesis
    by (simp add: demo_split_def demo_field_def)
qed

lemma demo_decode_encode: "demo_decode k (demo_encode k' p) = (if k = k' then Some p else None)"
proof -
  have 1: "demo_split (demo_encode k' p) = (k', demo_field (p_userId p) @ demo_field (p_sessionId p)
       @ demo_field (replicate (p_iat p) CHR ''i'') @ demo_field (replicate (p_exp p) CHR ''e''))"
    unfolding demo_encode_def by (rule demo_split_field)
  have 2: "demo_split (demo_field (replicate (p_exp p) CHR ''e'')) = (replicate (p_exp p) CHR ''e'', [])"
    using demo_split_field [of _ "[]"] by simp
  have 3: "\<lparr>p_userId = p_userId p, p_sessionId = p_sessionId p, p_iat = p_iat p, p_exp = p_exp p\<rparr> = p"
    by (cases p) simp
  show ?thesis
    by (simp add: demo_decode_def 1 2 3 demo_split_field Let_def)
qed

lemma demo_decode_lib:
  "lib_jwt_decode demo_lib k (lib_jwt_encode demo_lib k' p) = (if k = k' then Some p else None)"
  by (simp add: demo_lib_def demo_decode_encode)

lemma demo_jwt_roundtrip: "jwt_roundtrip demo_lib"
  by (simp add: jwt_roundtrip_def demo_decode_lib)

lemma parseDuration_30d: "parseDuration ''30d'' = Inr 2592000000"
  by (simp add: parseDuration_def is_digit_def parseInt10_def digit_val_def)

lemma parseDuration_15m: "parseDuration ''15m'' = Inr 900000"
  by (simp add: parseDuration_def is_digit_def parseInt10_def digit_val_def)

lemma demo_ms:
  "lib_ms demo_lib ''30d'' = Some 2592000000" "lib_ms demo_lib ''15m'' = Some 900000"
  by (simp_all add: demo_lib_def parseDuration_30d parseDuration_15m)

lemma demo_config_ok: "config_ok demo_lib demo_cfg"
  by (simp add: config_ok_def demo_cfg_def parseDuration_30d demo_ms)

lemma length_to_hex: "length (to_hex n v) = n"
  by (simp add: to_hex_def)

lemma hex_digit_in: "d < 16 \<Longrightarrow> hex_digit d \<in> set ''0123456789abcdef''"
  unfolding hex_digit_def by (rule nth_mem) simp

lemma set_to_hex: "set (to_hex n v) \<subseteq> set ''0123456789abcdef''"
  unfolding to_hex_def using hex_digit_in by (auto simp del: set_simps)

lemma length_hashToken: "length (hashToken L token) = 64"
  by (simp add: hashToken_def length_to_hex)

lemma hashToken_nonempty: "hashToken L token \<noteq> []"
  using length_hashToken [of L token] by auto

section \<open>Refresh-token digests\<close>

lemma demo_verify_refresh:
  "now div 1000 < e \<Longrightarrow>
   verifyRefreshToken demo_lib demo_cfg now (demo_refresh uid sid i e)
     = Some \<lparr>p_userId = uid, p_sessionId = sid, p_iat = i, p_exp = e\<rparr>"
  by (simp add: verifyRefreshToken_def jwt_verify_def demo_refresh_def demo_decode_lib)

lemma refreshTokens_no_match:
  assumes "verifyRefreshToken L cfg now token = Some payload"
    and "find (\<lambda>s. s_id s = p_sessionId payload \<and> refreshTokenHash s = hashToken L token
                       \<and> now < expiresAt s) (sessions w) = None"
  shows "refreshTokens L cfg now token ip w =
           (Inl SessionCompromised,
            invalidateUserSessions (p_userId payload)
              (w\<lparr>sessions := filter (\<lambda>s. s_userId s \<noteq> p_userId payload) (sessions w)\<rparr>))"
  using assms by (simp add: refreshTokens_def Let_def)

text \<open>
  Claim C10.  For every token, \<open>hashToken\<close> returns 64 lower-case hexadecimal
  characters, so it is never the empty placeholder hash a session row is
  created with; a rotation whose token verifies and names a session that
  still holds the placeholder therefore takes the reuse branch and fails with
  \<open>SessionCompromised\<close>.
\<close>

theorem hashToken_digest_placeholder:
  "length (hashToken L token) = 64
   \<and> set (hashToken L token) \<subseteq> set ''0123456789abcdef''
   \<and> hashToken L token \<noteq> []
   \<and> (verifyRefreshToken L cfg now token = Some payload
        \<longrightarrow> (\<forall>s \<in> set (sessions w). s_id s = p_sessionId payload \<longrightarrow> refreshTokenHash s = [])
        \<longrightarrow> fst (refreshTokens L cfg now token ip w) = Inl SessionCompromised)"
proof (intro conjI impI)
  show "length (hashToken L token) = 64" by (rule length_hashToken)
  show "set (hashToken L token) \<subseteq> set ''0123456789abcdef''"
    unfolding hashToken_def by (rule set_to_hex)
  show "hashToken L token \<noteq> []" by (rule hashToken_nonempty)
next
  assume v: "verifyRefreshToken L cfg now token = Some payload"
    and ph: "\<forall>s \<in> set (sessions w). s_id s = p_sessionId payload \<longrightarrow> refreshTokenHash s = []"
  have "find (\<lambda>s. s_id s = p_sessionId payload \<and> refreshTokenHash s = hashToken L token
                       \<and> now < expiresAt s) (sessions w) = None"
    using ph hashToken_nonempty [of L token] by (auto simp add: find_None_iff)
  with v show "fst (refreshTokens L cfg now token ip w) = Inl SessionCompromised"
    by (simp add: refreshTokens_no_match)
qed

theorem hashToken_digest_placeholder_witness:
  "verifyRefreshToken demo_lib demo_cfg 5000 (demo_refresh ''u1'' ''s1'' 1 2592001)
     = Some \<lparr>p_userId = ''u1'', p_sessionId = ''s1'', p_iat = 1, p_exp = 2592001\<rparr>
   \<and> map s_id (sessions demo_world_placeholder) = [''s1'']
   \<and> map refreshTokenHash (sessions demo_world_placeholder) = [[]]
   \<and> fst (refreshTokens demo_lib demo_cfg 5000 (demo_refresh ''u1'' ''s1'' 1 2592001) ''10.0.0.2''
            demo_world_placeholder) = Inl SessionCompromised"
proof -
  have v: "verifyRefreshToken demo_lib demo_cfg 5000 (demo_refresh ''u1'' ''s1'' 1 2592001)
     = Some \<lparr>p_userId = ''u1'', p_sessionId = ''s1'', p_iat = 1, p_exp = 2592001\<rparr>"
    by (rule demo_verify_refresh) simp
  have ph: "\<forall>s \<in> set (sessions demo_world_placeholder).
              s_id s = p_sessionId \<lparr>p_userId = ''u1'', p_sessionId = ''s1'', p_iat = 1, p_exp = 2592001\<rparr>
                \<longrightarrow> refreshTokenHash s = []"
    by (simp add: demo_world_placeholder_def demo_session_def)
  from hashToken_digest_placeholder [of demo_lib "demo_refresh ''u1'' ''s1'' 1 2592001" demo_cfg 5000
      "\<lparr>p_userId = ''u1'', p_sessionId = ''s1'', p_iat = 1, p_exp = 2592001\<rparr>" demo_world_placeholder "''10.0.0.2''"]
    v ph
  show ?thesis by (simp add: demo_world_placeholder_def demo_session_def)
qed

section \<open>Verification codes\<close>

lemma verification_key_neq_attempts: "verification_key p \<noteq> attempts_key p"
proof
  assume "verification_key p = attempts_key p"
  then have "length (verification_key p) = length (attempts_key p)" by simp
  then show False by (simp add: verification_key_def attempts_key_def)
qed

lemma redis_incr_other:
  "redis_incr r now k = Inr (n, r') \<Longrightarrow> k' \<noteq> k \<Longrightarrow> r' k' = r k'"
  by (auto simp add: redis_incr_def split: option.splits rvalue.splits if_splits)

lemma redis_expire_other: "k' \<noteq> k \<Longrightarrow> redis_expire r now k s k' = r k'"
  by (auto simp add: redis_expire_def split: option.splits)

lemma redis_live_cong: "r k = r' k \<Longrightarrow> redis_live r now k = redis_live r' now k"
  by (simp add: redis_live_def)

lemma redis_int_5: "redis_int ''5'' = Some 5"
  by (simp add: redis_int_def parse_int_def parseInt10_def digit_val_def show_int_def show_nat.simps)

text \<open>
  Claim C9.  Whatever the result of \<open>sendVerificationCode\<close>, the world it leaves
  holds the newly generated code for the phone with a fresh 300 second expiry;
  in particular when the attempt counter already stands at 5 or more the call
  fails with \<open>RateLimited\<close> and the challenge has been overwritten all the same.
\<close>

theorem sendVerificationCode_overwrites:
  "redis (snd (sendVerificationCode rnd now phone w)) (verification_key phone)
     = Some \<lparr>r_value = RString (generateVerificationCode rnd), r_expiry = Some (now + 300 * 1000)\<rparr>
   \<and> (redis_live (redis w) now (attempts_key phone) = Some e \<and> r_value e = RString v
        \<and> redis_int v = Some i \<and> 5 \<le> i \<and> i + 1 < 2 ^ 63
      \<longrightarrow> fst (sendVerificationCode rnd now phone w) = Inl RateLimited)"
proof (intro conjI impI)
  let ?k = "verification_key phone" and ?a = "attempts_key phone"
  let ?r1 = "(redis w)(?k \<mapsto> \<lparr>r_value = RString (generateVerificationCode rnd),
                                r_expiry = Some (now + 300 * 1000)\<rparr>)"
  have ne: "?k \<noteq> ?a" by (rule verification_key_neq_attempts)
  have set: "redis_set_ex (redis w) now ?k (generateVerificationCode rnd) 300 = Inr ?r1"
    by (simp add: redis_set_ex_def)
  show "redis (snd (sendVerificationCode rnd now phone w)) ?k
     = Some \<lparr>r_value = RString (generateVerificationCode rnd), r_expiry = Some (now + 300 * 1000)\<rparr>"
  proof (cases "redis_incr ?r1 now ?a")
    case (Inl err)
    then show ?thesis by (simp add: sendVerificationCode_def Let_def set)
  next
    case (Inr res)
    obtain n r2 where res: "res = (n, r2)" by (cases res)
    have "r2 ?k = ?r1 ?k" using Inr res ne by (auto dest: redis_incr_other)
    then show ?thesis
      using Inr res ne by (simp add: sendVerificationCode_def Let_def set redis_expire_other)
  qed
  assume h: "redis_live (redis w) now ?a = Some e \<and> r_value e = RString v
        \<and> redis_int v = Some i \<and> 5 \<le> i \<and> i + 1 < 2 ^ 63"
  have "redis_live ?r1 now ?a = redis_live (redis w) now ?a"
    using ne by (intro redis_live_cong) simp
  with h have "redis_incr ?r1 now ?a = Inr (i + 1, ?r1(?a \<mapsto> e\<lparr>r_value := RString (show_int (i + 1))\<rparr>))"
    by (simp add: redis_incr_def)
  with h show "fst (sendVerificationCode rnd now phone w) = Inl RateLimited"
    by (simp add: sendVerificationCode_def Let_def set)
qed


theorem sendVerificationCode_overwrites_witness:
  "redis_live (redis demo_world_attempts) 1000 (attempts_key ''+14155551234'')
     = Some \<lparr>r_value = RString ''5'', r_expiry = Some 3600000\<rparr>
   \<and> redis_int ''5'' = Some 5
   \<and> fst (sendVerificationCode 123456 1000 ''+14155551234'' demo_world_attempts) = Inl RateLimited
   \<and> redis (snd (sendVerificationCode 123456 1000 ''+14155551234'' demo_world_attempts))
        (verification_key ''+14155551234'')
      = Some \<lparr>r_value = RString (generateVerificationCode 123456), r_expiry = Some 301000\<rparr>"
proof -
  have l: "redis_live (redis demo_world_attempts) 1000 (attempts_key ''+14155551234'')
     = Some \<lparr>r_value = RString ''5'', r_expiry = Some 3600000\<rparr>"
    by (simp add: demo_world_attempts_def redis_live_def)
  from sendVerificationCode_overwrites [of 123456 1000 "''+14155551234''" demo_world_attempts
      "\<lparr>r_value = RString ''5'', r_expiry = Some 3600000\<rparr>" "''5''" 5] l redis_int_5
  show ?thesis by simp
qed

section \<open>Sessions: basic facts\<close>

lemma foldl_redis_del_other: "k \<notin> set ks \<Longrightarrow> foldl redis_del r ks k = r k"
  by (induction ks arbitrary: r) (auto simp add: redis_del_def)

lemma foldl_redis_del_in: "k \<in> set ks \<Longrightarrow> foldl redis_del r ks k = None"
proof (induction ks arbitrary: r)
  case Nil
  then show ?case by simp
next
  case (Cons a ks)
  show ?case
  proof (cases "k \<in> set ks")
    case True
    then show ?thesis using Cons.IH by simp
  next
    case False
    with Cons.prems have ak: "a = k" by simp
    have "redis_del r k k = None" by (simp add: redis_del_def)
    with foldl_redis_del_other [OF False, of "redis_del r k"]
    have "foldl redis_del (redis_del r k) ks k = None" by simp
    then show ?thesis using ak by simp
  qed
qed

lemma redis_set_ex_other: "redis_set_ex r now k v s = Inr r' \<Longrightarrow> k' \<noteq> k \<Longrightarrow> r' k' = r k'"
  by (auto simp add: redis_set_ex_def split: if_splits)

lemma createSession_redis_other:
  assumes "\<And>sid. k \<noteq> session_key sid"
  shows "redis (snd (createSession L cfg newId now userId d ip w)) k = redis w k"
proof -
  have del: "\<And>r ss. foldl redis_del r (map (\<lambda>s. session_key (s_id s)) ss) k = r k"
    using assms by (intro foldl_redis_del_other) auto
  show ?thesis
    using assms
    by (auto simp add: createSession_def cleanupSessions_def Let_def del split: sum.splits
        dest: redis_set_ex_other)
qed

lemma finish_redis_other:
  assumes "\<And>sid. k \<noteq> session_key sid"
  shows "redis (snd (finish L cfg ns now d ip isNew uid w res)) k = redis w k"
proof (cases res)
  case (Inl e)
  then show ?thesis by (simp add: finish_def)
next
  case (Inr us)
  have "redis (snd (createSession L cfg ns now uid d ip (w\<lparr>users := us\<rparr>))) k = redis w k"
    using createSession_redis_other [OF assms, of L cfg ns now uid d ip "w\<lparr>users := us\<rparr>"] by simp
  then show ?thesis
    using Inr by (auto simp add: finish_def Let_def split: option.splits prod.splits sum.splits)
qed

lemma verification_key_not_session: "verification_key p \<noteq> session_key sid"
  by (simp add: verification_key_def session_key_def)

lemma session_update_fresh:
  assumes "newId \<notin> s_id ` set ss" "s_id s = newId"
  shows "session_update (ss @ [s]) newId f = Inr (ss @ [f s])"
proof -
  have "map (\<lambda>x. if s_id x = newId then f x else x) ss = ss"
    using assms(1) by (intro map_idI) auto
  then show ?thesis using assms(2) by (simp add: session_update_def)
qed

lemma session_create_fresh:
  assumes "s_id s \<notin> s_id ` set ss"
  shows "session_create ss s = Inr (ss @ [s])"
proof -
  have "\<not> list_ex (\<lambda>x. s_id x = s_id s) ss"
    unfolding list_ex_iff using assms by (metis imageI)
  then show ?thesis by (simp add: session_create_def)
qed

lemma createSession_ok:
  assumes "config_ok L cfg" "newId \<notin> s_id ` set (sessions w)"
    and "find (\<lambda>x. u_id x = userId) (users w) \<noteq> None"
  shows "\<exists>t w'. createSession L cfg newId now userId d ip w = (Inr t, w')"
proof -
  from assms(1) obtain m a b where
    m: "parseDuration (JWT_REFRESH_EXPIRATION cfg) = Inr m" "1000 \<le> m"
    and a: "lib_ms L (JWT_ACCESS_EXPIRATION cfg) = Some a"
    and b: "lib_ms L (JWT_REFRESH_EXPIRATION cfg) = Some b"
    by (auto simp add: config_ok_def split: sum.splits)
  from m(2) have ttl: "m div 1000 \<noteq> 0" by simp
  from assms(3) obtain u where u: "find (\<lambda>x. u_id x = userId) (users w) = Some u" by auto
  show ?thesis
    using assms(2)
    by (simp add: createSession_def Let_def m a b u ttl session_create_fresh session_update_fresh
        generateAccessToken_def generateRefreshToken_def jwt_sign_def redis_set_ex_def
        user_update_def)
qed

lemma finish_ok:
  assumes "config_ok L cfg" "ns \<notin> s_id ` set (sessions w)"
    and "find (\<lambda>x. u_id x = uid) us \<noteq> None"
  shows "\<exists>resp w'. finish L cfg ns now d ip isNew uid w (Inr us) = (Inr resp, w') \<and> isNewUser resp = isNew"
proof -
  from assms(3) obtain u where u: "find (\<lambda>x. u_id x = uid) us = Some u" by auto
  from createSession_ok [of L cfg ns "w\<lparr>users := us\<rparr>" uid now d ip] assms u
  obtain t w' where "createSession L cfg ns now uid d ip (w\<lparr>users := us\<rparr>) = (Inr t, w')"
    by auto
  then show ?thesis by (simp add: finish_def Let_def u respond_def)
qed


section \<open>Phone verification\<close>

lemma find_Some_mem: "find P xs = Some x \<Longrightarrow> x \<in> set xs \<and> P x"
  by (auto simp add: find_Some_iff)

lemma find_id_after_map:
  assumes "x \<in> set us" "\<And>y. u_id (f y) = u_id y"
  shows "find (\<lambda>y. u_id y = u_id x) (map (\<lambda>y. if u_id y = uid then f y else y) us) \<noteq> None"
proof -
  have "(if u_id x = uid then f x else x) \<in> set (map (\<lambda>y. if u_id y = uid then f y else y) us)"
    using assms(1) by (intro image_eqI [where x = x] | simp)+
  moreover have "u_id (if u_id x = uid then f x else x) = u_id x" using assms(2) by simp
  ultimately show ?thesis by (auto simp add: find_None_iff)
qed

lemma find_snoc_hit: "P u \<Longrightarrow> find P (us @ [u]) \<noteq> None"
  by (induction us) auto

lemma user_create_phone_ok:
  assumes "nu \<notin> u_id ` set us" "find (\<lambda>x. u_phone x = Some ph) us = None"
  shows "user_create us ((blank_user nu now)\<lparr>u_phone := Some ph, u_verifiedBadges := bs\<rparr>)
         = Inr (us @ [(blank_user nu now)\<lparr>u_phone := Some ph, u_verifiedBadges := bs\<rparr>])"
proof -
  have "\<And>x. x \<in> set us \<Longrightarrow> u_id x \<noteq> nu" using assms(1) by auto
  moreover have "\<And>x. x \<in> set us \<Longrightarrow> u_phone x \<noteq> Some ph"
    using assms(2) by (auto simp add: find_None_iff)
  ultimately have "\<not> list_ex (\<lambda>x. u_id x = nu \<or> u_phone x = Some ph) us"
    unfolding list_ex_iff by blast
  then show ?thesis
    by (simp add: user_create_def blank_user_def clash_def eq_commute [of "Some ph"])
qed

text \<open>
  Claim C5.  \<open>verifyPhoneCode\<close> fails with \<open>InvalidCredential\<close> (status 400) and
  changes nothing when no challenge is stored for the phone or the stored code
  differs from the presented one.  When the stored, unexpired code is the
  presented one, the challenge is deleted whatever happens next, so the same
  phone and code presented again (at any time, to the world the call left)
  fail with \<open>InvalidCredential\<close>; and the call succeeds when the configuration
  is sound and the generated ids are fresh, reporting a new user exactly when
  no account had the phone.
\<close>

theorem verifyPhoneCode_single_use:
  "(redis_get (redis w) now (verification_key (v_phone input)) = Inr None
      \<longrightarrow> fails_with InvalidCredential (fst (verifyPhoneCode L cfg nu ns now input ip w))
          \<and> snd (verifyPhoneCode L cfg nu ns now input ip w) = w)
   \<and> (redis_get (redis w) now (verification_key (v_phone input)) = Inr (Some c) \<and> c \<noteq> v_code input
      \<longrightarrow> fails_with InvalidCredential (fst (verifyPhoneCode L cfg nu ns now input ip w))
          \<and> snd (verifyPhoneCode L cfg nu ns now input ip w) = w)
   \<and> (redis_get (redis w) now (verification_key (v_phone input)) = Inr (Some (v_code input))
        \<and> v_code input \<noteq> []
      \<longrightarrow> redis (snd (verifyPhoneCode L cfg nu ns now input ip w)) (verification_key (v_phone input)) = None
          \<and> fails_with InvalidCredential
               (fst (verifyPhoneCode L cfg nu' ns' now' input ip'
                       (snd (verifyPhoneCode L cfg nu ns now input ip w))))
          \<and> (config_ok L cfg \<and> ns \<notin> s_id ` set (sessions w)
               \<and> (find (\<lambda>x. u_phone x = Some (v_phone input)) (users w) = None
                    \<longrightarrow> nu \<notin> u_id ` set (users w))
              \<longrightarrow> (\<exists>resp. fst (verifyPhoneCode L cfg nu ns now input ip w) = Inr resp
                     \<and> isNewUser resp
                         = (find (\<lambda>x. u_phone x = Some (v_phone input)) (users w) = None))))"
proof (intro conjI impI)
  let ?key = "verification_key (v_phone input)"
  let ?R = "verifyPhoneCode L cfg nu ns now input ip w"
  {
    assume "redis_get (redis w) now ?key = Inr None"
    then show "fails_with InvalidCredential (fst ?R)" and "snd ?R = w"
      by (simp_all add: verifyPhoneCode_def Let_def fails_with_def)
  }
  {
    assume "redis_get (redis w) now ?key = Inr (Some c) \<and> c \<noteq> v_code input"
    then show "fails_with InvalidCredential (fst ?R)" and "snd ?R = w"
      by (auto simp add: verifyPhoneCode_def Let_def fails_with_def)
  }
  assume h: "redis_get (redis w) now ?key = Inr (Some (v_code input)) \<and> v_code input \<noteq> []"
  let ?w1 = "w\<lparr>redis := redis_del (redis w) ?key\<rparr>"
  have ns: "\<And>sid. ?key \<noteq> session_key sid" by (rule verification_key_not_session)
  have w1: "redis ?w1 ?key = None" by (simp add: redis_del_def)
  have fin: "\<And>isNew uid res.
       redis (snd (finish L cfg ns now (v_deviceType input) ip isNew uid ?w1 res)) ?key = None"
    using finish_redis_other [OF ns] w1 by simp
  show gone: "redis (snd ?R) ?key = None"
    using h by (simp add: verifyPhoneCode_def Let_def fin split: option.splits)
  then have "redis_get (redis (snd ?R)) now' ?key = Inr None"
    by (simp add: redis_get_def redis_live_def)
  then show "fails_with InvalidCredential (fst (verifyPhoneCode L cfg nu' ns' now' input ip' (snd ?R)))"
    by (simp add: verifyPhoneCode_def Let_def fails_with_def)
  assume ok: "config_ok L cfg \<and> ns \<notin> s_id ` set (sessions w)
               \<and> (find (\<lambda>x. u_phone x = Some (v_phone input)) (users w) = None
                    \<longrightarrow> nu \<notin> u_id ` set (users w))"
  then have fresh: "ns \<notin> s_id ` set (sessions ?w1)" by simp
  show "\<exists>resp. fst ?R = Inr resp
          \<and> isNewUser resp = (find (\<lambda>x. u_phone x = Some (v_phone input)) (users w) = None)"
  proof (cases "find (\<lambda>x. u_phone x = Some (v_phone input)) (users w)")
    case None
    let ?u = "(blank_user nu now)\<lparr>u_phone := Some (v_phone input), u_verifiedBadges := [''PHONE'']\<rparr>"
    have cr: "user_create (users w) ?u = Inr (users w @ [?u])"
      using ok None by (intro user_create_phone_ok) auto
    have cfg: "config_ok L cfg" using ok by simp
    have "find (\<lambda>x. u_id x = nu) (users w @ [?u]) \<noteq> None"
      by (rule find_snoc_hit) (simp add: blank_user_def)
    from finish_ok [OF cfg fresh this, of now "v_deviceType input" ip True]
    obtain resp w' where
      "finish L cfg ns now (v_deviceType input) ip True nu ?w1 (Inr (users w @ [?u])) = (Inr resp, w')"
      "isNewUser resp = True" by blast
    then show ?thesis using h None cr by (simp add: verifyPhoneCode_def Let_def)
  next
    case (Some u)
    then have mem: "u \<in> set (users w)" by (auto dest: find_Some_mem)
    let ?f = "\<lambda>x. x\<lparr>u_verifiedBadges := u_verifiedBadges x @ [''PHONE'']\<rparr>"
    let ?us = "if ''PHONE'' \<notin> set (u_verifiedBadges u)
               then map (\<lambda>x. if u_id x = u_id u then ?f x else x) (users w) else users w"
    have fnd: "find (\<lambda>x. u_id x = u_id u) (users w) \<noteq> None"
      using mem by (auto simp add: find_None_iff)
    have upd: "(if ''PHONE'' \<notin> set (u_verifiedBadges u)
                then user_update (users ?w1) (u_id u) ?f else Inr (users ?w1)) = Inr ?us"
      using fnd by (auto simp add: user_update_def)
    have cfg: "config_ok L cfg" using ok by simp
    have "find (\<lambda>x. u_id x = u_id u) ?us \<noteq> None"
      using fnd find_id_after_map [OF mem, of ?f "u_id u"] by simp
    from finish_ok [OF cfg fresh this, of now "v_deviceType input" ip False]
    obtain resp w' where
      "finish L cfg ns now (v_deviceType input) ip False (u_id u) ?w1 (Inr ?us) = (Inr resp, w')"
      "isNewUser resp = False" by blast
    then show ?thesis using h Some upd by (simp add: verifyPhoneCode_def Let_def)
  qed
qed


theorem verifyPhoneCode_single_use_witness:
  "fails_with InvalidCredential
     (fst (verifyPhoneCode demo_lib demo_cfg ''u1'' ''s1'' 1000 (demo_input ''123456'') ''10.0.0.1''
             demo_world_empty))
   \<and> fails_with InvalidCredential
     (fst (verifyPhoneCode demo_lib demo_cfg ''u1'' ''s1'' 1000 (demo_input ''654321'') ''10.0.0.1''
             demo_world_challenge))
   \<and> snd (verifyPhoneCode demo_lib demo_cfg ''u1'' ''s1'' 1000 (demo_input ''654321'') ''10.0.0.1''
             demo_world_challenge) = demo_world_challenge
   \<and> (\<exists>resp. fst (verifyPhoneCode demo_lib demo_cfg ''u1'' ''s1'' 1000 (demo_input ''123456'')
                     ''10.0.0.1'' demo_world_challenge) = Inr resp \<and> isNewUser resp)
   \<and> fails_with InvalidCredential
     (fst (verifyPhoneCode demo_lib demo_cfg ''u2'' ''s2'' 2000 (demo_input ''123456'') ''10.0.0.1''
             (snd (verifyPhoneCode demo_lib demo_cfg ''u1'' ''s1'' 1000 (demo_input ''123456'')
                     ''10.0.0.1'' demo_world_challenge))))"
proof -
  have g0: "redis_get (redis demo_world_empty) 1000 (verification_key (v_phone (demo_input ''123456'')))
              = Inr None"
    by (simp add: redis_get_def redis_live_def demo_world_empty_def)
  have g1: "redis_get (redis demo_world_challenge) 1000 (verification_key (v_phone (demo_input c)))
              = Inr (Some ''123456'')" for c
    by (simp add: redis_get_def redis_live_def demo_world_challenge_def demo_input_def)
  have c1: "v_code (demo_input c) = c" for c by (simp add: demo_input_def)
  have e: "users demo_world_challenge = []" "sessions demo_world_challenge = []"
    by (simp_all add: demo_world_challenge_def)
  note t = verifyPhoneCode_single_use [where L = demo_lib and cfg = demo_cfg and now = 1000
      and ip = "''10.0.0.1''" and nu = "''u1''" and ns = "''s1''"]
  from t [where w = demo_world_empty and input = "demo_input ''123456''"] g0
  have "fails_with InvalidCredential
     (fst (verifyPhoneCode demo_lib demo_cfg ''u1'' ''s1'' 1000 (demo_input ''123456'') ''10.0.0.1''
             demo_world_empty))" by simp
  moreover
  from t [where w = demo_world_challenge and input = "demo_input ''654321''" and c = "''123456''"]
    g1 [of "''654321''"]
  have "fails_with InvalidCredential
     (fst (verifyPhoneCode demo_lib demo_cfg ''u1'' ''s1'' 1000 (demo_input ''654321'') ''10.0.0.1''
             demo_world_challenge))
     \<and> snd (verifyPhoneCode demo_lib demo_cfg ''u1'' ''s1'' 1000 (demo_input ''654321'') ''10.0.0.1''
             demo_world_challenge) = demo_world_challenge" by (simp add: c1)
  moreover
  from t [where w = demo_world_challenge and input = "demo_input ''123456''"
      and nu' = "''u2''" and ns' = "''s2''" and now' = 2000 and ip' = "''10.0.0.1''"]
    g1 [of "''123456''"] demo_config_ok
  have "(\<exists>resp. fst (verifyPhoneCode demo_lib demo_cfg ''u1'' ''s1'' 1000 (demo_input ''123456'')
                     ''10.0.0.1'' demo_world_challenge) = Inr resp \<and> isNewUser resp)
   \<and> fails_with InvalidCredential
     (fst (verifyPhoneCode demo_lib demo_cfg ''u2'' ''s2'' 2000 (demo_input ''123456'') ''10.0.0.1''
             (snd (verifyPhoneCode demo_lib demo_cfg ''u1'' ''s1'' 1000 (demo_input ''123456'')
                     ''10.0.0.1'' demo_world_challenge))))" by (simp add: c1 e)
  ultimately show ?thesis by simp
qed

section \<open>Reuse detection and the cache\<close>

lemma invalidate_after_delete:
  "invalidateUserSessions uid (w\<lparr>sessions := filter (\<lambda>s. s_userId s \<noteq> uid) (sessions w)\<rparr>)
     = w\<lparr>sessions := filter (\<lambda>s. s_userId s \<noteq> uid) (sessions w)\<rparr>"
proof -
  have "filter (\<lambda>s. s_userId s = uid) (filter (\<lambda>s. s_userId s \<noteq> uid) (sessions w)) = []"
    by (induction "sessions w") (auto simp add: filter_empty_conv)
  then show ?thesis by (simp add: invalidateUserSessions_def)
qed

lemma refreshTokens_reuse:
  assumes "verifyRefreshToken L cfg now token = Some payload"
    and "find (\<lambda>s. s_id s = p_sessionId payload \<and> refreshTokenHash s = hashToken L token
                       \<and> now < expiresAt s) (sessions w) = None"
  shows "refreshTokens L cfg now token ip w =
           (Inl SessionCompromised,
            w\<lparr>sessions := filter (\<lambda>s. s_userId s \<noteq> p_userId payload) (sessions w)\<rparr>)"
  using assms by (simp add: refreshTokens_no_match invalidate_after_delete)

lemma demo_verify_access:
  "now div 1000 < e \<Longrightarrow>
   verifyAccessToken demo_lib demo_cfg now (demo_access uid sid i e)
     = Some \<lparr>p_userId = uid, p_sessionId = sid, p_iat = i, p_exp = e\<rparr>"
  by (simp add: verifyAccessToken_def jwt_verify_def demo_access_def demo_decode_lib)

text \<open>
  Claim C1, evaluated on one input.  Account \<open>u1\<close> has one live session \<open>s2\<close>,
  cached under \<open>session:s2\<close>.  A refresh token of the same account that verifies
  and names a session the store no longer holds (\<open>s1\<close>) is presented: the call
  fails with \<open>SessionCompromised\<close> and the durable rows of \<open>u1\<close> are deleted,
  but \<open>invalidateUserSessions\<close> runs after the rows are gone, finds none, and
  deletes no cache key: \<open>session:s2\<close> is still there and \<open>authenticate\<close> still
  accepts the access token of \<open>s2\<close>.
\<close>

theorem refreshTokens_reuse_keeps_cache:
  "refreshTokens demo_lib demo_cfg 5000 (demo_refresh ''u1'' ''s1'' 1 2592001) ''10.0.0.9''
       demo_world_cached
     = (Inl SessionCompromised, demo_world_cached\<lparr>sessions := []\<rparr>)
   \<and> redis_exists (redis (demo_world_cached\<lparr>sessions := []\<rparr>)) 5000 (session_key ''s2'')
   \<and> fst (authenticate demo_lib demo_cfg 5000 (Some (''Bearer '' @ demo_access ''u1'' ''s2'' 2 901))
            (demo_world_cached\<lparr>sessions := []\<rparr>)) = Inr (''u1'', ''s2'')"
proof (intro conjI)
  have v: "verifyRefreshToken demo_lib demo_cfg 5000 (demo_refresh ''u1'' ''s1'' 1 2592001)
     = Some \<lparr>p_userId = ''u1'', p_sessionId = ''s1'', p_iat = 1, p_exp = 2592001\<rparr>"
    by (rule demo_verify_refresh) simp
  have f: "find (\<lambda>s. s_id s = p_sessionId \<lparr>p_userId = ''u1'', p_sessionId = ''s1'', p_iat = 1, p_exp = 2592001\<rparr>
              \<and> refreshTokenHash s = hashToken demo_lib (demo_refresh ''u1'' ''s1'' 1 2592001)
              \<and> 5000 < expiresAt s) (sessions demo_world_cached) = None"
    by (simp add: demo_world_cached_def demo_session_def)
  show "refreshTokens demo_lib demo_cfg 5000 (demo_refresh ''u1'' ''s1'' 1 2592001) ''10.0.0.9''
       demo_world_cached = (Inl SessionCompromised, demo_world_cached\<lparr>sessions := []\<rparr>)"
    unfolding refreshTokens_reuse [OF v f]
    by (simp add: demo_world_cached_def demo_session_def)
  show ex: "redis_exists (redis (demo_world_cached\<lparr>sessions := []\<rparr>)) 5000 (session_key ''s2'')"
    by (simp add: redis_exists_def redis_live_def demo_world_cached_def)
  have a: "verifyAccessToken demo_lib demo_cfg 5000 (demo_access ''u1'' ''s2'' 2 901)
     = Some \<lparr>p_userId = ''u1'', p_sessionId = ''s2'', p_iat = 2, p_exp = 901\<rparr>"
    by (rule demo_verify_access) simp
  show "fst (authenticate demo_lib demo_cfg 5000 (Some (''Bearer '' @ demo_access ''u1'' ''s2'' 2 901))
            (demo_world_cached\<lparr>sessions := []\<rparr>)) = Inr (''u1'', ''s2'')"
    using ex by (simp add: authenticate_def a Let_def)
qed


section \<open>Federated sign-in\<close>

lemmas demo_eval =
  authenticateWithGoogle_def authenticateWithApple_def decode_identity_def demo_google_def
  demo_apple_def demo_lib_def demo_json_def demo_cfg_def demo_world_empty_def finish_def
  createSession_def cleanupSessions_def Let_def truthy_def user_create_def user_update_def blank_user_def clash_def
  parseDuration_30d parseDuration_15m session_create_def session_update_def
  generateAccessToken_def generateRefreshToken_def jwt_sign_def redis_set_ex_def
  session_findMany_desc_def respond_def apple_displayName_def

text \<open>
  Claim C2, evaluated on two inputs with the same email in both identity
  tokens.  Google first, then Apple: the Apple path looks no account up by
  email, tries to create a second account, and fails on the unique email
  (P2002); nothing is linked.  Apple first, then Google: the Google path links
  into the existing account, but \<open>isNewUser\<close> was computed before the lookup by
  email and is reported as true.
\<close>

theorem federated_same_email_examples:
  "fst (authenticateWithApple demo_lib demo_cfg ''u2'' ''s2'' 2000 demo_apple ''10.0.0.1''
          (snd (authenticateWithGoogle demo_lib demo_cfg ''u1'' ''s1'' 1000 demo_google ''10.0.0.1''
                  demo_world_empty)))
     = Inl (PrismaError ''P2002'')
   \<and> map (\<lambda>u. (u_id u, u_appleId u, u_googleId u, u_verifiedBadges u))
       (users (snd (authenticateWithApple demo_lib demo_cfg ''u2'' ''s2'' 2000 demo_apple ''10.0.0.1''
          (snd (authenticateWithGoogle demo_lib demo_cfg ''u1'' ''s1'' 1000 demo_google ''10.0.0.1''
                  demo_world_empty)))))
     = [(''u1'', None, Some ''g-1'', [''GOOGLE''])]
   \<and> (case fst (authenticateWithGoogle demo_lib demo_cfg ''u2'' ''s2'' 2000 demo_google ''10.0.0.1''
          (snd (authenticateWithApple demo_lib demo_cfg ''u1'' ''s1'' 1000 demo_apple ''10.0.0.1''
                  demo_world_empty))) of
        Inl e \<Rightarrow> False
      | Inr resp \<Rightarrow> isNewUser resp \<and> a_id resp = ''u1'')
   \<and> map (\<lambda>u. (u_id u, u_appleId u, u_googleId u, u_verifiedBadges u))
       (users (snd (authenticateWithGoogle demo_lib demo_cfg ''u2'' ''s2'' 2000 demo_google ''10.0.0.1''
          (snd (authenticateWithApple demo_lib demo_cfg ''u1'' ''s1'' 1000 demo_apple ''10.0.0.1''
                  demo_world_empty)))))
     = [(''u1'', Some ''a-1'', Some ''g-1'', [''APPLE'', ''GOOGLE''])]"
  by (simp add: demo_eval)

section \<open>The session cap\<close>

lemma findMany_set: "set (session_findMany_desc ss uid) = {s \<in> set ss. s_userId s = uid}"
  by (auto simp add: session_findMany_desc_def)

lemma findMany_length:
  "length (session_findMany_desc ss uid) = length (filter (\<lambda>s. s_userId s = uid) ss)"
  by (simp add: session_findMany_desc_def)

lemma findMany_sorted:
  "sorted_wrt (\<lambda>a b. createdAt b \<le> createdAt a) (session_findMany_desc ss uid)"
proof -
  have "sorted (map createdAt (sort_key createdAt (filter (\<lambda>s. s_userId s = uid) ss)))"
    by (rule sorted_sort_key)
  then show ?thesis
    by (simp add: session_findMany_desc_def sorted_wrt_rev sorted_wrt_map)
qed

lemma findMany_filter_length:
  "length (filter Q (session_findMany_desc ss uid))
     = length (filter Q (filter (\<lambda>s. s_userId s = uid) ss))"
proof -
  have "filter Q (session_findMany_desc ss uid)
          = rev (sort_key createdAt (filter Q (filter (\<lambda>s. s_userId s = uid) ss)))"
    by (simp add: session_findMany_desc_def rev_filter [symmetric] filter_sort)
  then show ?thesis by simp
qed

lemma findMany_distinct:
  assumes "distinct (map s_id ss)"
  shows "distinct (map s_id (session_findMany_desc ss uid))"
proof -
  have "distinct (map s_id (filter (\<lambda>s. s_userId s = uid) ss))"
    using assms by (rule distinct_map_filter)
  then have "distinct (filter (\<lambda>s. s_userId s = uid) ss)"
    and "inj_on s_id (set (filter (\<lambda>s. s_userId s = uid) ss))"
    by (simp_all add: distinct_map)
  then show ?thesis
    by (simp add: session_findMany_desc_def distinct_map)
qed

text \<open>Newest first: whatever is after position \<open>n\<close> is no newer than whatever is before it.\<close>

lemma take_drop_order:
  assumes "x \<in> set (take n (session_findMany_desc ss uid))"
    and "y \<in> set (drop n (session_findMany_desc ss uid))"
  shows "createdAt y \<le> createdAt x"
proof -
  let ?a = "session_findMany_desc ss uid"
  have "sorted_wrt (\<lambda>a b. createdAt b \<le> createdAt a) (take n ?a @ drop n ?a)"
    using findMany_sorted [of ss uid] by simp
  then show ?thesis using assms unfolding sorted_wrt_append by blast
qed

lemma take_drop_ids_disjoint:
  assumes "distinct (map s_id xs)" "x \<in> set (take n xs)" "y \<in> set (drop n xs)"
  shows "s_id x \<noteq> s_id y"
proof -
  have "distinct (map s_id (take n xs) @ map s_id (drop n xs))"
    using assms(1) by (simp add: take_map [symmetric] drop_map [symmetric])
  then show ?thesis using assms(2,3) by auto
qed

lemma cleanup_users: "users (cleanupSessions uid w) = users w"
  by (simp add: cleanupSessions_def Let_def)

lemma cleanup_sessions:
  "sessions (cleanupSessions uid w) =
     (if 5 < length (session_findMany_desc (sessions w) uid)
      then filter (\<lambda>s. s_id s \<notin> s_id ` set (drop 5 (session_findMany_desc (sessions w) uid)))
             (sessions w)
      else sessions w)"
  by (simp add: cleanupSessions_def Let_def)

lemma cleanup_redis:
  "redis (cleanupSessions uid w) =
     (if 5 < length (session_findMany_desc (sessions w) uid)
      then foldl redis_del (redis w)
             (map (\<lambda>s. session_key (s_id s)) (drop 5 (session_findMany_desc (sessions w) uid)))
      else redis w)"
  by (simp add: cleanupSessions_def Let_def)

lemma cleanup_subset: "r \<in> set (sessions (cleanupSessions uid w)) \<Longrightarrow> r \<in> set (sessions w)"
  by (auto simp add: cleanup_sessions split: if_splits)

lemma cleanup_cap:
  "length (filter (\<lambda>s. s_userId s = uid) (sessions (cleanupSessions uid w))) \<le> 5"
proof (cases "5 < length (session_findMany_desc (sessions w) uid)")
  case False
  then show ?thesis by (simp add: cleanup_sessions findMany_length)
next
  case True
  let ?a = "session_findMany_desc (sessions w) uid"
  let ?Q = "\<lambda>s. s_id s \<notin> s_id ` set (drop 5 ?a)"
  have "filter ?Q (drop 5 ?a) = []" by (auto simp add: filter_empty_conv)
  then have "length (filter ?Q (take 5 ?a @ drop 5 ?a)) = length (filter ?Q (take 5 ?a))"
    by (simp only: filter_append append_Nil2)
  then have "length (filter ?Q ?a) \<le> 5"
    using length_filter_le [of ?Q "take 5 ?a"] by simp
  moreover have "length (filter (\<lambda>s. s_userId s = uid) (filter ?Q (sessions w)))
                   = length (filter ?Q ?a)"
    by (simp add: findMany_filter_length conj_commute)
  ultimately show ?thesis using True by (simp add: cleanup_sessions)
qed

lemma cleanup_retained_take:
  assumes "5 < length (session_findMany_desc (sessions w) uid)"
    and "r \<in> set (sessions (cleanupSessions uid w))" "s_userId r = uid"
  shows "r \<in> set (take 5 (session_findMany_desc (sessions w) uid))"
proof -
  let ?a = "session_findMany_desc (sessions w) uid"
  from assms have "r \<in> set ?a" and "s_id r \<notin> s_id ` set (drop 5 ?a)"
    by (auto simp add: cleanup_sessions findMany_set)
  then have "r \<in> set (take 5 ?a @ drop 5 ?a)" and "r \<notin> set (drop 5 ?a)" by auto
  then show ?thesis by (simp only: set_append Un_iff) blast
qed

lemma cleanup_evicted_id:
  assumes "e \<in> set (sessions w)" "e \<notin> set (sessions (cleanupSessions uid w))"
  shows "5 < length (session_findMany_desc (sessions w) uid)
         \<and> s_id e \<in> s_id ` set (drop 5 (session_findMany_desc (sessions w) uid))"
  using assms by (auto simp add: cleanup_sessions split: if_splits)

lemma cleanup_evicted_redis:
  assumes "e \<in> set (sessions w)" "e \<notin> set (sessions (cleanupSessions uid w))"
  shows "redis (cleanupSessions uid w) (session_key (s_id e)) = None"
proof -
  from cleanup_evicted_id [OF assms]
  have gt: "5 < length (session_findMany_desc (sessions w) uid)"
    and "s_id e \<in> s_id ` set (drop 5 (session_findMany_desc (sessions w) uid))" by simp_all
  then have "session_key (s_id e)
               \<in> set (map (\<lambda>s. session_key (s_id s)) (drop 5 (session_findMany_desc (sessions w) uid)))"
    by auto
  then show ?thesis using gt by (simp only: cleanup_redis if_True foldl_redis_del_in)
qed

lemma cleanup_evicted_drop:
  assumes "distinct (map s_id (sessions w))"
    and "e \<in> set (sessions w)" "e \<notin> set (sessions (cleanupSessions uid w))"
  shows "e \<in> set (drop 5 (session_findMany_desc (sessions w) uid))"
proof -
  from cleanup_evicted_id [OF assms(2,3)] obtain e'
    where e': "e' \<in> set (drop 5 (session_findMany_desc (sessions w) uid))" "s_id e = s_id e'"
    by auto
  then have "e' \<in> set (session_findMany_desc (sessions w) uid)" by (auto dest: in_set_dropD)
  then have "e' \<in> set (sessions w)" by (simp add: findMany_set)
  with assms(1,2) e'(2) have "e = e'" by (auto simp add: distinct_map dest: inj_onD)
  with e'(1) show ?thesis by simp
qed

lemma cleanup_order:
  assumes "distinct (map s_id (sessions w))"
    and "e \<in> set (sessions w)" "e \<notin> set (sessions (cleanupSessions uid w))"
    and "r \<in> set (sessions (cleanupSessions uid w))" "s_userId r = uid"
  shows "createdAt e \<le> createdAt r"
proof -
  have gt: "5 < length (session_findMany_desc (sessions w) uid)"
    using cleanup_evicted_id [OF assms(2,3)] by simp
  show ?thesis
    using cleanup_retained_take [OF gt assms(4,5)] cleanup_evicted_drop [OF assms(1,2,3)]
    by (rule take_drop_order)
qed

lemma cleanup_evicted_owner:
  assumes "distinct (map s_id (sessions w))"
    and "e \<in> set (sessions w)" "e \<notin> set (sessions (cleanupSessions uid w))"
  shows "s_userId e = uid"
  using cleanup_evicted_drop [OF assms] by (auto dest!: in_set_dropD simp add: findMany_set)

lemma cleanup_others:
  assumes "distinct (map s_id (sessions w))"
  shows "filter (\<lambda>s. s_userId s \<noteq> uid) (sessions (cleanupSessions uid w))
           = filter (\<lambda>s. s_userId s \<noteq> uid) (sessions w)"
proof -
  have "\<And>s. s \<in> set (sessions w) \<Longrightarrow> s_userId s \<noteq> uid
          \<Longrightarrow> s \<in> set (sessions (cleanupSessions uid w))"
    using cleanup_evicted_owner [OF assms] by blast
  then have "filter (\<lambda>s. s_userId s \<noteq> uid)
               (filter (\<lambda>s. s \<in> set (sessions (cleanupSessions uid w))) (sessions w))
             = filter (\<lambda>s. s_userId s \<noteq> uid) (sessions w)"
    by (auto intro: filter_cong)
  moreover have "filter (\<lambda>s. s \<in> set (sessions (cleanupSessions uid w))) (sessions w)
                   = sessions (cleanupSessions uid w)"
    by (auto simp add: cleanup_sessions intro: filter_cong)
  ultimately show ?thesis by simp
qed

lemma cleanup_distinct:
  "distinct (map s_id (sessions w)) \<Longrightarrow> distinct (map s_id (sessions (cleanupSessions uid w)))"
  by (simp add: cleanup_sessions distinct_map_filter)

lemma cleanup_exact:
  assumes "distinct (map s_id (sessions w))"
  shows "length (filter (\<lambda>s. s_userId s = uid) (sessions (cleanupSessions uid w)))
           = min 5 (length (filter (\<lambda>s. s_userId s = uid) (sessions w)))"
proof (cases "5 < length (session_findMany_desc (sessions w) uid)")
  case False
  then show ?thesis by (simp add: cleanup_sessions findMany_length)
next
  case True
  let ?a = "session_findMany_desc (sessions w) uid"
  let ?Q = "\<lambda>s. s_id s \<notin> s_id ` set (drop 5 ?a)"
  have d: "distinct (map s_id ?a)" using assms by (rule findMany_distinct)
  have "filter ?Q (drop 5 ?a) = []" by (auto simp add: filter_empty_conv)
  moreover have "filter ?Q (take 5 ?a) = take 5 ?a"
    using take_drop_ids_disjoint [OF d] by (auto simp add: filter_id_conv)
  ultimately have "filter ?Q (take 5 ?a @ drop 5 ?a) = take 5 ?a"
    by (simp only: filter_append append_Nil2)
  then have "length (filter ?Q ?a) = 5" using True by simp
  moreover have "length (filter (\<lambda>s. s_userId s = uid) (filter ?Q (sessions w)))
                   = length (filter ?Q ?a)"
    by (simp add: findMany_filter_length conj_commute)
  ultimately show ?thesis using True by (simp add: cleanup_sessions findMany_length)
qed

lemma session_create_Inr:
  "session_create ss s = Inr ss' \<Longrightarrow> s_id s \<notin> s_id ` set ss \<and> ss' = ss @ [s]"
  by (auto simp add: session_create_def list_ex_iff split: if_splits)

lemma jwt_sign_Inr:
  "jwt_sign L now payload secret e = Inr tok \<Longrightarrow>
   \<exists>span. lib_ms L e = Some span
     \<and> tok = lib_jwt_encode L secret
               \<lparr>p_userId = fst payload, p_sessionId = snd payload,
                p_iat = now div 1000, p_exp = now div 1000 + span div 1000\<rparr>"
  by (auto simp add: jwt_sign_def split: option.splits)

lemma redis_set_ex_Inr:
  "redis_set_ex r now k v secs = Inr r' \<Longrightarrow>
   secs \<noteq> 0 \<and> r' = r(k \<mapsto> \<lparr>r_value = RString v, r_expiry = Some (now + secs * 1000)\<rparr>)"
  by (auto simp add: redis_set_ex_def split: if_splits)

lemma user_update_Inr:
  "user_update us uid f = Inr us' \<Longrightarrow>
   find (\<lambda>x. u_id x = uid) us \<noteq> None \<and> us' = map (\<lambda>x. if u_id x = uid then f x else x) us"
  by (auto simp add: user_update_def split: option.splits)

text \<open>What a successful \<open>createSession\<close> has done, step by step.\<close>

lemma createSession_Inr:
  assumes "createSession L cfg newId now userId d ip w = (Inr t, w')"
  obtains m a b where
    "parseDuration (JWT_REFRESH_EXPIRATION cfg) = Inr m" "m div 1000 \<noteq> 0"
    "lib_ms L (JWT_ACCESS_EXPIRATION cfg) = Some a"
    "lib_ms L (JWT_REFRESH_EXPIRATION cfg) = Some b"
    "newId \<notin> s_id ` set (sessions w)"
    "accessToken t = lib_jwt_encode L (JWT_ACCESS_SECRET cfg)
        \<lparr>p_userId = userId, p_sessionId = newId,
         p_iat = now div 1000, p_exp = now div 1000 + a div 1000\<rparr>"
    "refreshToken t = lib_jwt_encode L (JWT_REFRESH_SECRET cfg)
        \<lparr>p_userId = userId, p_sessionId = newId,
         p_iat = now div 1000, p_exp = now div 1000 + b div 1000\<rparr>"
    "w' = cleanupSessions userId
           (w\<lparr>sessions := sessions w @
                 [\<lparr>s_id = newId, s_userId = userId, refreshTokenHash = hashToken L (refreshToken t),
                   deviceType = (if d = Some [] then None else d), ipAddress = ip,
                   expiresAt = now + m, createdAt = now\<rparr>],
               redis := (redis w)(session_key newId \<mapsto>
                          \<lparr>r_value = RString userId, r_expiry = Some (now + m div 1000 * 1000)\<rparr>),
               users := map (\<lambda>x. if u_id x = userId then x\<lparr>u_lastActiveAt := now\<rparr> else x) (users w)\<rparr>)"
proof -
  let ?new = "\<lparr>s_id = newId, s_userId = userId, refreshTokenHash = [],
                deviceType = (if d = Some [] then None else d), ipAddress = ip,
                expiresAt = now + (case parseDuration (JWT_REFRESH_EXPIRATION cfg) of Inr m \<Rightarrow> m | Inl e \<Rightarrow> 0),
                createdAt = now\<rparr>"
  from assms obtain m where m: "parseDuration (JWT_REFRESH_EXPIRATION cfg) = Inr m"
    by (cases "parseDuration (JWT_REFRESH_EXPIRATION cfg)") (auto simp add: createSession_def)
  from assms m obtain ss1 where ss1: "session_create (sessions w) ?new = Inr ss1"
    by (cases "session_create (sessions w) ?new") (auto simp add: createSession_def)
  then have fresh: "newId \<notin> s_id ` set (sessions w)" and ss1': "ss1 = sessions w @ [?new]"
    by (auto dest: session_create_Inr)
  from assms m ss1 obtain acc where acc: "generateAccessToken L cfg now (userId, newId) = Inr acc"
    by (cases "generateAccessToken L cfg now (userId, newId)") (auto simp add: createSession_def Let_def)
  from assms m ss1 acc obtain ref where ref: "generateRefreshToken L cfg now (userId, newId) = Inr ref"
    by (cases "generateRefreshToken L cfg now (userId, newId)") (auto simp add: createSession_def Let_def)
  have upd: "session_update ss1 newId (\<lambda>s. s\<lparr>refreshTokenHash := hashToken L ref\<rparr>)
               = Inr (sessions w @ [?new\<lparr>refreshTokenHash := hashToken L ref\<rparr>])"
    unfolding ss1' using fresh by (intro session_update_fresh) simp_all
  let ?w2 = "w\<lparr>sessions := sessions w @ [?new\<lparr>refreshTokenHash := hashToken L ref\<rparr>]\<rparr>"
  from assms m ss1 acc ref upd obtain r3 where
    r3: "redis_set_ex (redis w) now (session_key newId) userId (m div 1000) = Inr r3"
    by (cases "redis_set_ex (redis w) now (session_key newId) userId (m div 1000)")
       (auto simp add: createSession_def Let_def)
  from assms m ss1 acc ref upd r3 obtain us4 where
    us4: "user_update (users w) userId (\<lambda>u. u\<lparr>u_lastActiveAt := now\<rparr>) = Inr us4"
    by (cases "user_update (users w) userId (\<lambda>u. u\<lparr>u_lastActiveAt := now\<rparr>)")
       (auto simp add: createSession_def Let_def)
  from assms m ss1 acc ref upd r3 us4
  have t: "t = \<lparr>accessToken = acc, refreshToken = ref, expiresIn = 900\<rparr>"
    and w': "w' = cleanupSessions userId (?w2\<lparr>redis := r3, users := us4\<rparr>)"
    by (auto simp add: createSession_def Let_def)
  from acc obtain a where a: "lib_ms L (JWT_ACCESS_EXPIRATION cfg) = Some a"
    "acc = lib_jwt_encode L (JWT_ACCESS_SECRET cfg)
        \<lparr>p_userId = userId, p_sessionId = newId,
         p_iat = now div 1000, p_exp = now div 1000 + a div 1000\<rparr>"
    by (auto simp add: generateAccessToken_def dest!: jwt_sign_Inr)
  from ref obtain b where b: "lib_ms L (JWT_REFRESH_EXPIRATION cfg) = Some b"
    "ref = lib_jwt_encode L (JWT_REFRESH_SECRET cfg)
        \<lparr>p_userId = userId, p_sessionId = newId,
         p_iat = now div 1000, p_exp = now div 1000 + b div 1000\<rparr>"
    by (auto simp add: generateRefreshToken_def dest!: jwt_sign_Inr)
  show thesis
  proof (rule that [of m a b])
    show "parseDuration (JWT_REFRESH_EXPIRATION cfg) = Inr m" by (rule m)
    show "m div 1000 \<noteq> 0" using r3 by (auto dest: redis_set_ex_Inr)
    show "lib_ms L (JWT_ACCESS_EXPIRATION cfg) = Some a" by (rule a)
    show "lib_ms L (JWT_REFRESH_EXPIRATION cfg) = Some b" by (rule b)
    show "newId \<notin> s_id ` set (sessions w)" by (rule fresh)
    show "accessToken t = lib_jwt_encode L (JWT_ACCESS_SECRET cfg)
        \<lparr>p_userId = userId, p_sessionId = newId,
         p_iat = now div 1000, p_exp = now div 1000 + a div 1000\<rparr>"
      using t a by simp
    show "refreshToken t = lib_jwt_encode L (JWT_REFRESH_SECRET cfg)
        \<lparr>p_userId = userId, p_sessionId = newId,
         p_iat = now div 1000, p_exp = now div 1000 + b div 1000\<rparr>"
      using t b by simp
    show "w' = cleanupSessions userId
           (w\<lparr>sessions := sessions w @
                 [\<lparr>s_id = newId, s_userId = userId, refreshTokenHash = hashToken L (refreshToken t),
                   deviceType = (if d = Some [] then None else d), ipAddress = ip,
                   expiresAt = now + m, createdAt = now\<rparr>],
               redis := (redis w)(session_key newId \<mapsto>
                          \<lparr>r_value = RString userId, r_expiry = Some (now + m div 1000 * 1000)\<rparr>),
               users := map (\<lambda>x. if u_id x = userId then x\<lparr>u_lastActiveAt := now\<rparr> else x) (users w)\<rparr>)"
      using w' t m r3 us4 by (auto dest!: redis_set_ex_Inr user_update_Inr)
  qed
qed

lemma createSession_cap_single:
  assumes "createSession L cfg newId now userId d ip w = (Inr t, w')"
  shows "length (filter (\<lambda>s. s_userId s = userId) (sessions w')) \<le> 5"
  using assms by (elim createSession_Inr) (simp only: cleanup_cap)

lemma createSession_calls_cap:
  "x \<in> set (createSession_calls L cfg userId cs w0) \<Longrightarrow> fst x = Inr t'
     \<Longrightarrow> length (filter (\<lambda>s. s_userId s = userId) (sessions (snd x))) \<le> 5"
proof (induction cs arbitrary: w0)
  case Nil
  then show ?case by simp
next
  case (Cons c cs)
  obtain newId now d ip where c: "c = (newId, now, d, ip)" by (cases c) auto
  let ?r = "createSession L cfg newId now userId d ip w0"
  from Cons.prems(1) c have "x = ?r \<or> x \<in> set (createSession_calls L cfg userId cs (snd ?r))"
    by (simp add: Let_def)
  then show ?case
  proof
    assume "x = ?r"
    with Cons.prems(2) have "?r = (Inr t', snd x)" by (simp add: prod_eq_iff)
    then show ?thesis by (rule createSession_cap_single)
  next
    assume "x \<in> set (createSession_calls L cfg userId cs (snd ?r))"
    then show ?thesis using Cons.prems(2) by (rule Cons.IH)
  qed
qed

text \<open>
  Claim C4.  After a \<open>createSession\<close> call that completes, the durable store
  holds at most 5 sessions of the account, from whatever world the call
  started; hence also after each completed call of any finite sequence of
  calls.  When session ids are unique (the primary key), the call keeps that,
  leaves the sessions of other accounts alone, and leaves the account with
  \<open>min 5 (n + 1)\<close> sessions: every session it retains is an old one or the new
  one, every session it evicts (the new one included, should it be evicted)
  was created no later than every session it retains, and the cache key of
  every evicted session is deleted.
\<close>

theorem createSession_session_cap:
  "(createSession L cfg newId now userId d ip w = (Inr t, w') \<longrightarrow>
       length (filter (\<lambda>s. s_userId s = userId) (sessions w')) \<le> 5
     \<and> (distinct (map s_id (sessions w)) \<longrightarrow>
          distinct (map s_id (sessions w'))
        \<and> length (filter (\<lambda>s. s_userId s = userId) (sessions w'))
            = min 5 (Suc (length (filter (\<lambda>s. s_userId s = userId) (sessions w))))
        \<and> filter (\<lambda>s. s_userId s \<noteq> userId) (sessions w')
            = filter (\<lambda>s. s_userId s \<noteq> userId) (sessions w)
        \<and> (\<forall>r \<in> set (sessions w').
              r \<in> set (sessions w) \<or> (s_id r = newId \<and> s_userId r = userId \<and> createdAt r = now))
        \<and> (\<forall>e \<in> set (sessions w). e \<notin> set (sessions w') \<longrightarrow>
              s_userId e = userId
              \<and> redis w' (session_key (s_id e)) = None
              \<and> (\<forall>r \<in> set (sessions w'). s_userId r = userId \<longrightarrow> createdAt e \<le> createdAt r))
        \<and> (newId \<notin> s_id ` set (sessions w') \<longrightarrow>
              redis w' (session_key newId) = None
              \<and> (\<forall>r \<in> set (sessions w'). s_userId r = userId \<longrightarrow> now \<le> createdAt r))))
   \<and> (\<forall>x \<in> set (createSession_calls L cfg userId cs w0). \<forall>t'.
         fst x = Inr t' \<longrightarrow> length (filter (\<lambda>s. s_userId s = userId) (sessions (snd x))) \<le> 5)"
proof (intro conjI impI ballI allI)
  fix x t'
  assume "x \<in> set (createSession_calls L cfg userId cs w0)" "fst x = Inr t'"
  then show "length (filter (\<lambda>s. s_userId s = userId) (sessions (snd x))) \<le> 5"
    by (rule createSession_calls_cap)
next
  assume ok: "createSession L cfg newId now userId d ip w = (Inr t, w')"
  then show "length (filter (\<lambda>s. s_userId s = userId) (sessions w')) \<le> 5"
    by (rule createSession_cap_single)
next
  assume ok: "createSession L cfg newId now userId d ip w = (Inr t, w')"
    and dist: "distinct (map s_id (sessions w))"
  from ok obtain m where fresh: "newId \<notin> s_id ` set (sessions w)"
    and w': "w' = cleanupSessions userId
           (w\<lparr>sessions := sessions w @
                 [\<lparr>s_id = newId, s_userId = userId, refreshTokenHash = hashToken L (refreshToken t),
                   deviceType = (if d = Some [] then None else d), ipAddress = ip,
                   expiresAt = now + m, createdAt = now\<rparr>],
               redis := (redis w)(session_key newId \<mapsto>
                          \<lparr>r_value = RString userId, r_expiry = Some (now + m div 1000 * 1000)\<rparr>),
               users := map (\<lambda>x. if u_id x = userId then x\<lparr>u_lastActiveAt := now\<rparr> else x) (users w)\<rparr>)"
    by (elim createSession_Inr)
  define new where "new = \<lparr>s_id = newId, s_userId = userId, refreshTokenHash = hashToken L (refreshToken t),
                   deviceType = (if d = Some [] then None else d), ipAddress = ip,
                   expiresAt = now + m, createdAt = now\<rparr>"
  define W where "W = w\<lparr>sessions := sessions w @ [new],
               redis := (redis w)(session_key newId \<mapsto>
                          \<lparr>r_value = RString userId, r_expiry = Some (now + m div 1000 * 1000)\<rparr>),
               users := map (\<lambda>x. if u_id x = userId then x\<lparr>u_lastActiveAt := now\<rparr> else x) (users w)\<rparr>"
  have w'': "w' = cleanupSessions userId W" unfolding W_def new_def by (rule w')
  have sW: "sessions W = sessions w @ [new]" by (simp add: W_def)
  have new: "s_id new = newId" "s_userId new = userId" "createdAt new = now" by (simp_all add: new_def)
  have dW: "distinct (map s_id (sessions W))" using dist fresh by (simp add: sW new)
  show "distinct (map s_id (sessions w'))" unfolding w'' using dW by (rule cleanup_distinct)
  show "length (filter (\<lambda>s. s_userId s = userId) (sessions w'))
            = min 5 (Suc (length (filter (\<lambda>s. s_userId s = userId) (sessions w))))"
    unfolding w'' using cleanup_exact [OF dW, of userId] by (simp add: sW new)
  show "filter (\<lambda>s. s_userId s \<noteq> userId) (sessions w')
            = filter (\<lambda>s. s_userId s \<noteq> userId) (sessions w)"
    unfolding w'' using cleanup_others [OF dW, of userId] by (simp add: sW new)
  {
    fix r assume "r \<in> set (sessions w')"
    then have "r \<in> set (sessions W)" unfolding w'' by (rule cleanup_subset)
    then show "r \<in> set (sessions w) \<or> (s_id r = newId \<and> s_userId r = userId \<and> createdAt r = now)"
      using new by (auto simp add: sW)
  }
  {
    fix e assume e: "e \<in> set (sessions w)" "e \<notin> set (sessions w')"
    then have eW: "e \<in> set (sessions W)" "e \<notin> set (sessions (cleanupSessions userId W))"
      by (simp_all add: sW w'')
    show "s_userId e = userId" using dW eW by (rule cleanup_evicted_owner)
    show "redis w' (session_key (s_id e)) = None" unfolding w'' using eW by (rule cleanup_evicted_redis)
    fix r assume "r \<in> set (sessions w')" "s_userId r = userId"
    then show "createdAt e \<le> createdAt r" unfolding w'' by (intro cleanup_order [OF dW eW])
  }
  {
    assume "newId \<notin> s_id ` set (sessions w')"
    then have "new \<notin> set (sessions w')" using new(1) by auto
    then have nW: "new \<in> set (sessions W)" "new \<notin> set (sessions (cleanupSessions userId W))"
      by (simp_all add: sW w'')
    show "redis w' (session_key newId) = None"
      unfolding w'' using cleanup_evicted_redis [OF nW] by (simp add: new)
    fix r assume "r \<in> set (sessions w')" "s_userId r = userId"
    then have "createdAt new \<le> createdAt r" unfolding w'' by (intro cleanup_order [OF dW nW])
    then show "now \<le> createdAt r" by (simp add: new)
  }
qed

lemmas demo_session_eval =
  createSession_def cleanupSessions_def Let_def demo_lib_def demo_cfg_def
  parseDuration_30d parseDuration_15m session_create_def session_update_def
  generateAccessToken_def generateRefreshToken_def jwt_sign_def redis_set_ex_def
  session_findMany_desc_def user_update_def demo_user_def blank_user_def demo_session_def
  demo_tokens_def demo_access_def demo_refresh_def

theorem createSession_session_cap_witness:
  "fst (createSession demo_lib demo_cfg ''s6'' 6000 ''u1'' None ''10.0.0.1'' demo_world_five)
     = Inr (demo_tokens ''u1'' ''s6'' 6)
   \<and> map s_id (sessions demo_world_five) = [''s1'', ''s2'', ''s3'', ''s4'', ''s5'']
   \<and> map s_id (sessions (snd (createSession demo_lib demo_cfg ''s6'' 6000 ''u1'' None ''10.0.0.1''
                                 demo_world_five)))
       = [''s2'', ''s3'', ''s4'', ''s5'', ''s6'']
   \<and> length (filter (\<lambda>s. s_userId s = ''u1'')
         (sessions (snd (createSession demo_lib demo_cfg ''s6'' 6000 ''u1'' None ''10.0.0.1''
                           demo_world_five)))) = 5
   \<and> redis (snd (createSession demo_lib demo_cfg ''s6'' 6000 ''u1'' None ''10.0.0.1'' demo_world_five))
        (session_key ''s1'') = None
   \<and> length (filter (\<lambda>s. s_userId s = ''u1'')
         (sessions (snd (hd (createSession_calls demo_lib demo_cfg ''u1''
                               [(''s6'', 6000, None, ''10.0.0.1'')] demo_world_five))))) \<le> 5"
proof -
  let ?r = "createSession demo_lib demo_cfg ''s6'' 6000 ''u1'' None ''10.0.0.1'' demo_world_five"
  have f: "fst ?r = Inr (demo_tokens ''u1'' ''s6'' 6)"
    by (simp add: demo_session_eval demo_world_five_def)
  have ids: "map s_id (sessions demo_world_five) = [''s1'', ''s2'', ''s3'', ''s4'', ''s5'']"
    by (simp add: demo_world_five_def demo_session_def)
  have ids': "map s_id (sessions (snd ?r)) = [''s2'', ''s3'', ''s4'', ''s5'', ''s6'']"
    by (simp add: demo_session_eval demo_world_five_def)
  have eq: "?r = (Inr (demo_tokens ''u1'' ''s6'' 6), snd ?r)"
    using f by (simp add: prod_eq_iff)
  have d: "distinct (map s_id (sessions demo_world_five))" by (simp add: ids)
  have old: "length (filter (\<lambda>s. s_userId s = ''u1'') (sessions demo_world_five)) = 5"
    by (simp add: demo_world_five_def demo_session_def)
  have s1: "demo_session ''s1'' ''u1'' ''h1'' 1000 2592001000 \<in> set (sessions demo_world_five)"
    by (simp add: demo_world_five_def)
  have s1': "demo_session ''s1'' ''u1'' ''h1'' 1000 2592001000 \<notin> set (sessions (snd ?r))"
  proof
    assume "demo_session ''s1'' ''u1'' ''h1'' 1000 2592001000 \<in> set (sessions (snd ?r))"
    then have "s_id (demo_session ''s1'' ''u1'' ''h1'' 1000 2592001000) \<in> set (map s_id (sessions (snd ?r)))"
      by (simp only: set_map) (rule imageI)
    then show False by (simp add: ids' demo_session_def)
  qed
  have x: "?r \<in> set (createSession_calls demo_lib demo_cfg ''u1''
                       [(''s6'', 6000, None, ''10.0.0.1'')] demo_world_five)"
    by (simp add: Let_def)
  have hd: "hd (createSession_calls demo_lib demo_cfg ''u1''
                       [(''s6'', 6000, None, ''10.0.0.1'')] demo_world_five) = ?r"
    by (simp add: Let_def)
  note t = createSession_session_cap [of demo_lib demo_cfg "''s6''" 6000 "''u1''" None "''10.0.0.1''"
      demo_world_five "demo_tokens ''u1'' ''s6'' 6" "snd ?r"
      "[(''s6'', 6000, None, ''10.0.0.1'')]" demo_world_five]
  from t eq d old have "length (filter (\<lambda>s. s_userId s = ''u1'') (sessions (snd ?r))) = 5"
    by simp
  moreover from t eq d s1 s1' have "redis (snd ?r) (session_key ''s1'') = None"
    by (auto simp add: demo_session_def)
  moreover from t x f
  have "length (filter (\<lambda>s. s_userId s = ''u1'') (sessions (snd ?r))) \<le> 5"
    by blast
  ultimately show ?thesis using f ids ids' hd by simp
qed

section \<open>The validity check\<close>




lemma session_key_inj: "session_key a = session_key b \<Longrightarrow> a = b"
  by (simp add: session_key_def)










section \<open>The rate limiter\<close>

lemma redis_live_upd_same:
  "redis_live (r(k \<mapsto> e)) now k = (case r_expiry e of None \<Rightarrow> Some e | Some t \<Rightarrow> if t \<le> now then None else Some e)"
  by (simp add: redis_live_def)

lemma redis_live_del_same: "redis_live (r(k := None)) now k = None"
  by (simp add: redis_live_def)

text \<open>One request, seen through the sorted set the key shows at the time of the request.\<close>

lemma limiter_step:
  fixes opts req rnd now r zs
  defines "key \<equiv> rate_key opts req"
    and "m \<equiv> show_nat now @ '':'' @ rnd"
    and "zs' \<equiv> filter (\<lambda>(m', s). int now - int (opt_windowSeconds opts) * 1000 < int s) zs"
  assumes W: "0 < opt_windowSeconds opts"
    and vis: "(redis_live r now key = None \<and> zs = [])
               \<or> (\<exists>ex. redis_live r now key = Some \<lparr>r_value = RZSet zs, r_expiry = ex\<rparr>)"
    and fresh: "m \<notin> fst ` set zs"
  shows "(sent (fst (createRateLimiter opts True rnd now req r)) \<noteq> None)
           = (opt_max opts \<le> length zs')"
    and "snd (createRateLimiter opts True rnd now req r) key
           = Some \<lparr>r_value = RZSet ((m, now) # zs'),
                   r_expiry = Some (now + opt_windowSeconds opts * 1000)\<rparr>"
proof -
  let ?ws = "int now - int (opt_windowSeconds opts) * 1000"
  define r1 where "r1 = redis_zremrangebyscore r now key 0 ?ws"
  define r2 where "r2 = redis_zadd r1 now key now m"
  define r3 where "r3 = redis_expire r2 now key (opt_windowSeconds opts)"
  have flt: "filter (\<lambda>(m', s). \<not> (0 \<le> int s \<and> int s \<le> ?ws)) zs = zs'"
    unfolding zs'_def by (intro filter_cong) auto
  have flt2: "filter (\<lambda>(m', s). \<not> int s \<le> ?ws) zs = zs'"
    unfolding zs'_def by (intro filter_cong) auto
  have keep: "filter (\<lambda>(m', s). m' \<noteq> m) zs' = zs'"
  proof (rule filter_True)
    show "\<forall>x \<in> set zs'. case x of (m', s) \<Rightarrow> m' \<noteq> m"
      using fresh unfolding zs'_def by force
  qed
  have l1: "(redis_live r1 now key = None \<and> zs' = [])
             \<or> (zs' \<noteq> [] \<and> (\<exists>ex. redis_live r1 now key = Some \<lparr>r_value = RZSet zs', r_expiry = ex\<rparr>))"
  proof -
    from vis show ?thesis
    proof
      assume a: "redis_live r now key = None \<and> zs = []"
      then have "r1 = r" by (simp add: r1_def redis_zremrangebyscore_def)
      with a show ?thesis by (simp add: zs'_def)
    next
      assume "\<exists>ex. redis_live r now key = Some \<lparr>r_value = RZSet zs, r_expiry = ex\<rparr>"
      then obtain ex where a: "redis_live r now key = Some \<lparr>r_value = RZSet zs, r_expiry = ex\<rparr>" by auto
      then have ex: "case ex of None \<Rightarrow> True | Some t \<Rightarrow> now < t"
        by (auto simp add: redis_live_def split: option.splits if_splits)
      show ?thesis
      proof (cases "zs' = []")
        case True
        with a have "r1 = r(key := None)"
          by (simp add: r1_def redis_zremrangebyscore_def flt2 Let_def)
        with True show ?thesis by (simp add: redis_live_del_same)
      next
        case False
        with a have "r1 = r(key \<mapsto> \<lparr>r_value = RZSet zs', r_expiry = ex\<rparr>)"
          by (simp add: r1_def redis_zremrangebyscore_def flt2 Let_def)
        with False ex show ?thesis
          by (auto simp add: redis_live_upd_same split: option.splits)
      qed
    qed
  qed
  have card: "redis_zcard r1 now key = Some (length zs')"
    using l1 by (auto simp add: redis_zcard_def)
  have l2: "\<exists>ex. r2 key = Some \<lparr>r_value = RZSet ((m, now) # zs'), r_expiry = ex\<rparr>
               \<and> (case ex of None \<Rightarrow> True | Some t \<Rightarrow> now < t)"
  proof -
    from l1 show ?thesis
    proof
      assume "redis_live r1 now key = None \<and> zs' = []"
      then show ?thesis by (simp add: r2_def redis_zadd_def)
    next
      assume "zs' \<noteq> [] \<and> (\<exists>ex. redis_live r1 now key = Some \<lparr>r_value = RZSet zs', r_expiry = ex\<rparr>)"
      then obtain ex where a: "redis_live r1 now key = Some \<lparr>r_value = RZSet zs', r_expiry = ex\<rparr>" by auto
      then have "case ex of None \<Rightarrow> True | Some t \<Rightarrow> now < t"
        by (auto simp add: redis_live_def split: option.splits if_splits)
      with a show ?thesis by (simp add: r2_def redis_zadd_def keep)
    qed
  qed
  then obtain ex where r2: "r2 key = Some \<lparr>r_value = RZSet ((m, now) # zs'), r_expiry = ex\<rparr>"
    and ex: "case ex of None \<Rightarrow> True | Some t \<Rightarrow> now < t" by auto
  have "redis_live r2 now key = Some \<lparr>r_value = RZSet ((m, now) # zs'), r_expiry = ex\<rparr>"
    using r2 ex by (auto simp add: redis_live_def split: option.splits)
  then have r3: "r3 key = Some \<lparr>r_value = RZSet ((m, now) # zs'),
                   r_expiry = Some (now + opt_windowSeconds opts * 1000)\<rparr>"
    using W by (simp add: r3_def redis_expire_def)
  have res: "createRateLimiter opts True rnd now req r =
     (if opt_max opts \<le> length zs'
      then (\<lparr>headers = [(''X-RateLimit-Limit'', int (opt_max opts)),
                      (''X-RateLimit-Remaining'', max 0 (int (opt_max opts) - int (length zs') - 1)),
                      (''X-RateLimit-Reset'',
                         int ((now + opt_windowSeconds opts * 1000 + 999) div 1000))]
                      @ [(''Retry-After'', int (opt_windowSeconds opts))],
              sent = Some (HttpError 429 ''Rate limit exceeded. Please try again later.'')\<rparr>, r3)
      else (\<lparr>headers = [(''X-RateLimit-Limit'', int (opt_max opts)),
                      (''X-RateLimit-Remaining'', max 0 (int (opt_max opts) - int (length zs') - 1)),
                      (''X-RateLimit-Reset'',
                         int ((now + opt_windowSeconds opts * 1000 + 999) div 1000))],
              sent = None\<rparr>, r3))"
    unfolding createRateLimiter_def Let_def key_def [symmetric] m_def [symmetric]
      r1_def [symmetric] r2_def [symmetric] r3_def [symmetric] card
    by simp
  show "(sent (fst (createRateLimiter opts True rnd now req r)) \<noteq> None)
           = (opt_max opts \<le> length zs')"
    unfolding res by simp
  show "snd (createRateLimiter opts True rnd now req r) key
           = Some \<lparr>r_value = RZSet ((m, now) # zs'),
                   r_expiry = Some (now + opt_windowSeconds opts * 1000)\<rparr>"
    unfolding res using r3 by simp
qed

lemma limiter_run:
  fixes opts req
  defines "key \<equiv> rate_key opts req" and "W \<equiv> opt_windowSeconds opts"
  assumes W: "0 < W"
  shows "(r key = None \<and> prev = [])
          \<or> r key = Some \<lparr>r_value = RZSet (map (\<lambda>c. (rate_member c, fst c))
                                            (filter (\<lambda>c. int t0 - int W * 1000 < int (fst c)) prev)),
                          r_expiry = Some (t0 + W * 1000)\<rparr>
         \<Longrightarrow> \<forall>c \<in> set prev. fst c \<le> t0
         \<Longrightarrow> sorted (t0 # map fst cs)
         \<Longrightarrow> distinct (map rate_member (cs @ prev))
         \<Longrightarrow> rateLimit_calls opts req cs r
               = sliding_window (opt_max opts) W (map fst prev) (map fst cs)"
proof (induction cs arbitrary: r prev t0)
  case Nil
  then show ?case by simp
next
  case (Cons c cs)
  obtain now rnd where c: "c = (now, rnd)" by (cases c)
  let ?entry = "\<lambda>c. (rate_member c, fst c)"
  let ?win = "\<lambda>t c. int t - int W * 1000 < int (fst c)"
  from Cons.prems(3) c have le: "t0 \<le> now" by simp
  define zs where "zs = (if r key = None \<or> t0 + W * 1000 \<le> now then []
                          else map ?entry (filter (?win t0) prev))"
  have vis: "(redis_live r now key = None \<and> zs = [])
               \<or> (\<exists>ex. redis_live r now key = Some \<lparr>r_value = RZSet zs, r_expiry = ex\<rparr>)"
    using Cons.prems(1) by (auto simp add: zs_def redis_live_def)
  have zs': "filter (\<lambda>(m', s). int now - int (opt_windowSeconds opts) * 1000 < int s) zs
               = map ?entry (filter (?win now) prev)"
  proof (cases "r key = None \<or> t0 + W * 1000 \<le> now")
    case True
    have "filter (?win now) prev = []"
    proof (cases "r key = None")
      case True
      with Cons.prems(1) show ?thesis by auto
    next
      case False
      with True have "t0 + W * 1000 \<le> now" by simp
      with Cons.prems(2) show ?thesis by (fastforce simp add: filter_empty_conv)
    qed
    with True show ?thesis by (simp add: zs_def)
  next
    case False
    have "filter (\<lambda>c. ?win now c \<and> ?win t0 c) prev = filter (?win now) prev"
      using le by (intro filter_cong) auto
    moreover have "zs = map ?entry (filter (?win t0) prev)"
      unfolding zs_def using False by (rule if_not_P)
    ultimately show ?thesis
      by (simp add: filter_map comp_def W_def conj_commute)
  qed
  have fresh: "show_nat now @ '':'' @ rnd \<notin> fst ` set zs"
  proof -
    have "rate_member c \<notin> rate_member ` set prev" using Cons.prems(4) by auto
    moreover have "fst ` set zs \<subseteq> rate_member ` set prev" by (auto simp add: zs_def)
    ultimately show ?thesis by (auto simp add: c rate_member_def)
  qed
  from W have W': "0 < opt_windowSeconds opts" by (simp add: W_def)
  note step = limiter_step [OF W' vis [unfolded key_def] fresh, unfolded zs']
  let ?r' = "snd (createRateLimiter opts True rnd now req r)"
  have count: "length (map ?entry (filter (?win now) prev))
                 = length (filter (\<lambda>s. int now - int W * 1000 < int s) (map fst prev))"
    by (simp add: filter_map comp_def)
  have inwin: "?win now c" using W by (simp add: c)
  have r': "?r' key = Some \<lparr>r_value = RZSet (map ?entry (filter (?win now) (c # prev))),
                              r_expiry = Some (now + W * 1000)\<rparr>"
    using step(2) inwin by (simp add: key_def W_def c rate_member_def)
  have "rateLimit_calls opts req cs ?r'
          = sliding_window (opt_max opts) W (map fst (c # prev)) (map fst cs)"
  proof (rule Cons.IH)
    show "(?r' key = None \<and> c # prev = [])
          \<or> ?r' key = Some \<lparr>r_value = RZSet (map ?entry (filter (?win now) (c # prev))),
                          r_expiry = Some (now + W * 1000)\<rparr>"
      using r' by simp
    show "\<forall>c' \<in> set (c # prev). fst c' \<le> now"
      using Cons.prems(2) le by (auto simp add: c)
    show "sorted (now # map fst cs)" using Cons.prems(3) by (simp add: c)
    show "distinct (map rate_member (cs @ c # prev))" using Cons.prems(4) by auto
  qed
  then show ?case
    using step(1) by (simp add: c Let_def filter_map comp_def)
qed

lemma demo_hits_members: "distinct (map rate_member demo_hits)"
  by (simp add: demo_hits_def rate_member_def show_nat.simps)

lemma demo_hits_run:
  "rateLimit_calls demo_opts demo_req demo_hits Map.empty
     = sliding_window 2 10 [] (map fst demo_hits)"
proof -
  have "sorted (0 # map fst demo_hits)" by (simp add: demo_hits_def)
  with limiter_run [where opts = demo_opts and req = demo_req and r = Map.empty and prev = "[]"
      and ?t0.0 = 0 and cs = demo_hits] demo_hits_members
  show ?thesis by (simp add: demo_opts_def)
qed

text \<open>
  Claim C7 as stated fails.  With a maximum of 2 per 10 seconds, requests at
  100.0, 109.0, 111.0 and 112.0 seconds: a counter started at the first
  attempt would start afresh at 110.0 and admit all four; the handler rejects
  the fourth, because the requests at 109.0 and 111.0 are both within the 10
  seconds before it.
\<close>

theorem rateLimit_not_fixed_window:
  "rateLimit_calls demo_opts demo_req demo_hits Map.empty = [False, False, False, True]
   \<and> fixed_window (opt_max demo_opts) (opt_windowSeconds demo_opts) None (map fst demo_hits)
       = [False, False, False, False]"
  by (simp add: demo_hits_run) (simp add: demo_hits_def demo_opts_def)

text \<open>
  Claim C7, amended.  For one key, starting with no entry for it, with a
  positive window, a clock that does not go back and members that differ, the
  handler decides every request as the sliding window over the log does: it
  records every request, admitted or rejected, and rejects a request when the
  requests recorded in the \<open>windowSeconds\<close> before it already number \<open>max\<close>.
\<close>

theorem rateLimit_sliding_window:
  assumes "0 < opt_windowSeconds opts" "r (rate_key opts req) = None"
    and "sorted (map fst cs)" "distinct (map rate_member cs)"
  shows "rateLimit_calls opts req cs r
           = sliding_window (opt_max opts) (opt_windowSeconds opts) [] (map fst cs)"
proof -
  have "sorted (0 # map fst cs)" using assms(3) by simp
  with limiter_run [where opts = opts and req = req and r = r and prev = "[]"
      and ?t0.0 = 0 and cs = cs] assms
  show ?thesis by simp
qed

theorem rateLimit_sliding_window_witness:
  "distinct (map rate_member [(100000, ''a''), (101000, ''b''), (110500, ''c'')])
   \<and> rateLimit_calls (demo_opts\<lparr>opt_max := 1\<rparr>) demo_req
        [(100000, ''a''), (101000, ''b''), (110500, ''c'')] Map.empty
      = [False, True, True]"
proof -
  have d: "distinct (map rate_member [(100000, ''a''), (101000, ''b''), (110500, ''c'')])"
    by (simp add: rate_member_def show_nat.simps)
  from rateLimit_sliding_window [of "demo_opts\<lparr>opt_max := 1\<rparr>" Map.empty demo_req
      "[(100000, ''a''), (101000, ''b''), (110500, ''c'')]"] d
  have "rateLimit_calls (demo_opts\<lparr>opt_max := 1\<rparr>) demo_req
        [(100000, ''a''), (101000, ''b''), (110500, ''c'')] Map.empty
      = sliding_window 1 10 [] [100000, 101000, 110500]"
    by (simp add: demo_opts_def)
  with d show ?thesis by simp
qed

section \<open>Rotation\<close>

lemma rows_ok_subset:
  "rows_ok sid G w \<Longrightarrow> set (sessions w') \<subseteq> set (sessions w) \<Longrightarrow> rows_ok sid G w'"
  by (auto simp add: rows_ok_def)

lemma session_update_rows:
  assumes "session_update ss x f = Inr ss'" "s \<in> set ss'"
  shows "s \<in> set ss \<or> (\<exists>y \<in> set ss. s = f y)"
  using assms by (auto simp add: session_update_def split: if_splits)

lemma generateRefreshToken_Inr:
  "generateRefreshToken L cfg now (uid, sid) = Inr tok \<Longrightarrow>
   \<exists>e. tok = lib_jwt_encode L (JWT_REFRESH_SECRET cfg)
              \<lparr>p_userId = uid, p_sessionId = sid, p_iat = now div 1000, p_exp = e\<rparr>"
  by (auto simp add: generateRefreshToken_def dest!: jwt_sign_Inr)

lemma createSession_rows:
  assumes "rows_ok sid G w" "issued_ok L cfg G now"
  shows "rows_ok sid G (snd (createSession L cfg newId now userId d ip w))"
proof -
  have G0: "G []" and GI: "\<And>tok. generateRefreshToken L cfg now (userId, newId) = Inr tok
                              \<Longrightarrow> G (hashToken L tok)"
    using assms(2) by (auto simp add: issued_ok_def dest!: generateRefreshToken_Inr)
  have sub: "\<And>w0. set (sessions (cleanupSessions userId w0)) \<subseteq> set (sessions w0)"
    by (auto dest: cleanup_subset)
  show ?thesis
    using assms(1) G0
    apply (simp add: createSession_def Let_def rows_ok_def split: sum.splits)
    apply (intro conjI allI impI ballI)
    apply (auto dest!: session_create_Inr session_update_rows GI cleanup_subset)
    done
qed

lemma rows_ok_users [simp]: "rows_ok sid G (w\<lparr>users := us\<rparr>) = rows_ok sid G w"
  by (simp add: rows_ok_def)

lemma rows_ok_redis [simp]: "rows_ok sid G (w\<lparr>redis := r\<rparr>) = rows_ok sid G w"
  by (simp add: rows_ok_def)

lemma invalidate_sessions: "sessions (invalidateUserSessions uid w) = sessions w"
  by (simp add: invalidateUserSessions_def Let_def)

lemma refreshTokens_rows:
  assumes "rows_ok sid G w" "issued_ok L cfg G now"
  shows "rows_ok sid G (snd (refreshTokens L cfg now tok ip w))"
proof -
  have GI: "\<And>u s t. generateRefreshToken L cfg now (u, s) = Inr t \<Longrightarrow> G (hashToken L t)"
    using assms(2) by (auto simp add: issued_ok_def dest!: generateRefreshToken_Inr)
  show ?thesis
    using assms(1)
    apply (simp add: refreshTokens_def Let_def rows_ok_def invalidate_sessions
        split: option.splits sum.splits)
    apply (intro conjI allI impI ballI)
    apply (auto dest!: session_update_rows GI)
    done
qed

lemma logout_rows_ok: "rows_ok sid G w \<Longrightarrow> rows_ok sid G (logout x w)"
  by (auto simp add: rows_ok_def logout_def)

lemma finish_rows:
  assumes "rows_ok sid G w" "issued_ok L cfg G now"
  shows "rows_ok sid G (snd (finish L cfg ns now d ip isNew uid w res))"
proof (cases res)
  case (Inl e)
  with assms(1) show ?thesis by (simp add: finish_def)
next
  case (Inr us)
  have "rows_ok sid G (snd (createSession L cfg ns now uid d ip (w\<lparr>users := us\<rparr>)))"
    using assms by (intro createSession_rows) simp_all
  with assms(1) Inr show ?thesis
    by (auto simp add: finish_def Let_def split: option.splits prod.splits sum.splits)
qed

lemma verifyPhoneCode_rows:
  assumes "rows_ok sid G w" "issued_ok L cfg G now"
  shows "rows_ok sid G (snd (verifyPhoneCode L cfg nu ns now input ip w))"
proof -
  have "\<And>isNew uid res. rows_ok sid G
          (snd (finish L cfg ns now (v_deviceType input) ip isNew uid
                  (w\<lparr>redis := redis_del (redis w) (verification_key (v_phone input))\<rparr>) res))"
    using assms by (intro finish_rows) simp_all
  with assms(1) show ?thesis
    by (simp add: verifyPhoneCode_def Let_def split: sum.splits option.splits)
qed

lemma authenticateWithGoogle_rows:
  assumes "rows_ok sid G w" "issued_ok L cfg G now"
  shows "rows_ok sid G (snd (authenticateWithGoogle L cfg nu ns now input ip w))"
  using assms by (simp add: authenticateWithGoogle_def finish_rows split: option.splits)

lemma authenticateWithApple_rows:
  assumes "rows_ok sid G w" "issued_ok L cfg G now"
  shows "rows_ok sid G (snd (authenticateWithApple L cfg nu ns now input ip w))"
  using assms by (simp add: authenticateWithApple_def finish_rows split: option.splits)

lemma sendVerificationCode_sessions:
  "sessions (snd (sendVerificationCode rnd now phone w)) = sessions w"
  by (simp add: sendVerificationCode_def Let_def split: sum.splits prod.splits)

lemma authenticate_sessions: "sessions (snd (authenticate L cfg now hdr w)) = sessions w"
  by (simp add: authenticate_def Let_def split: option.splits sum.splits)

lemma reach_rows:
  assumes "reach L cfg t0 w w'" "rows_ok sid G w" "\<And>now. t0 \<le> now \<Longrightarrow> issued_ok L cfg G now"
  shows "rows_ok sid G w'"
  using assms(1)
proof (induction rule: reach.induct)
  case reach_start
  show ?case by (rule assms(2))
next
  case (reach_send w1 now rnd phone)
  then show ?case by (simp add: rows_ok_def sendVerificationCode_sessions)
next
  case (reach_verify w1 now nu ns input ip)
  then show ?case by (intro verifyPhoneCode_rows assms(3))
next
  case (reach_google w1 now nu ns ginput ip)
  then show ?case by (intro authenticateWithGoogle_rows assms(3))
next
  case (reach_apple w1 now nu ns ainput ip)
  then show ?case by (intro authenticateWithApple_rows assms(3))
next
  case (reach_refresh w1 now tok ip)
  then show ?case by (intro refreshTokens_rows assms(3))
next
  case (reach_logout w1 sid')
  then show ?case by (intro logout_rows_ok)
next
  case (reach_authenticate w1 now hdr)
  then show ?case by (simp add: rows_ok_def authenticate_sessions)
next
  case (reach_rateLimit w1 now opts up rnd req)
  then show ?case by simp
qed

lemma verifyRefreshToken_Some:
  "verifyRefreshToken L cfg now tok = Some p
     \<Longrightarrow> lib_jwt_decode L (JWT_REFRESH_SECRET cfg) tok = Some p"
  by (auto simp add: verifyRefreshToken_def jwt_verify_def split: option.splits if_splits)

lemma issued_differs:
  assumes "jwt_roundtrip L" "lib_jwt_decode L k tok = Some p" "p_iat p \<noteq> i"
  shows "lib_jwt_encode L k \<lparr>p_userId = uid, p_sessionId = sid, p_iat = i, p_exp = e\<rparr> \<noteq> tok"
proof
  assume "lib_jwt_encode L k \<lparr>p_userId = uid, p_sessionId = sid, p_iat = i, p_exp = e\<rparr> = tok"
  with assms(1) have "lib_jwt_decode L k tok
                        = Some \<lparr>p_userId = uid, p_sessionId = sid, p_iat = i, p_exp = e\<rparr>"
    by (auto simp add: jwt_roundtrip_def)
  with assms(2,3) show False by auto
qed

lemma issued_ok_later:
  assumes "jwt_roundtrip L" "no_collision L cfg tok"
    and "lib_jwt_decode L (JWT_REFRESH_SECRET cfg) tok = Some p"
    and "p_iat p < t0 div 1000" "t0 \<le> now"
  shows "issued_ok L cfg (\<lambda>h. h \<noteq> hashToken L tok) now"
proof -
  from assms(4,5) have "p_iat p \<noteq> now div 1000"
    using div_le_mono [of t0 now 1000] by simp
  then have "\<And>uid sid e. lib_jwt_encode L (JWT_REFRESH_SECRET cfg)
                \<lparr>p_userId = uid, p_sessionId = sid, p_iat = now div 1000, p_exp = e\<rparr> \<noteq> tok"
    using assms(1,3) by (intro issued_differs)
  then have "\<And>uid sid e. hashToken L (lib_jwt_encode L (JWT_REFRESH_SECRET cfg)
                \<lparr>p_userId = uid, p_sessionId = sid, p_iat = now div 1000, p_exp = e\<rparr>)
              \<noteq> hashToken L tok"
    using assms(2) unfolding no_collision_def by blast
  then show ?thesis
    using hashToken_nonempty [of L tok] by (auto simp add: issued_ok_def)
qed

text \<open>A rotation that finds its session, under a sound configuration.\<close>

lemma refreshTokens_ok:
  assumes "config_ok L cfg" "verifyRefreshToken L cfg now tok = Some p"
    and "find (\<lambda>s. s_id s = p_sessionId p \<and> refreshTokenHash s = hashToken L tok
                       \<and> now < expiresAt s) (sessions w) = Some session"
  obtains m a b where
    "parseDuration (JWT_REFRESH_EXPIRATION cfg) = Inr m"
    "lib_ms L (JWT_ACCESS_EXPIRATION cfg) = Some a"
    "lib_ms L (JWT_REFRESH_EXPIRATION cfg) = Some b"
    "refreshTokens L cfg now tok ip w =
       (Inr \<lparr>accessToken = lib_jwt_encode L (JWT_ACCESS_SECRET cfg)
                \<lparr>p_userId = s_userId session, p_sessionId = p_sessionId p,
                 p_iat = now div 1000, p_exp = now div 1000 + a div 1000\<rparr>,
              refreshToken = lib_jwt_encode L (JWT_REFRESH_SECRET cfg)
                \<lparr>p_userId = s_userId session, p_sessionId = p_sessionId p,
                 p_iat = now div 1000, p_exp = now div 1000 + b div 1000\<rparr>,
              expiresIn = 900\<rparr>,
        w\<lparr>sessions := map (\<lambda>x. if s_id x = p_sessionId p
                                 then x\<lparr>refreshTokenHash :=
                                          hashToken L (lib_jwt_encode L (JWT_REFRESH_SECRET cfg)
                                            \<lparr>p_userId = s_userId session, p_sessionId = p_sessionId p,
                                             p_iat = now div 1000, p_exp = now div 1000 + b div 1000\<rparr>),
                                        ipAddress := ip, expiresAt := now + m\<rparr>
                                 else x) (sessions w),
          redis := (redis w)(session_key (p_sessionId p) \<mapsto>
                      \<lparr>r_value = RString (s_userId session),
                       r_expiry = Some (now + m div 1000 * 1000)\<rparr>)\<rparr>)"
proof -
  from assms(1) obtain m a b where
    m: "parseDuration (JWT_REFRESH_EXPIRATION cfg) = Inr m" "1000 \<le> m"
    and a: "lib_ms L (JWT_ACCESS_EXPIRATION cfg) = Some a"
    and b: "lib_ms L (JWT_REFRESH_EXPIRATION cfg) = Some b"
    by (auto simp add: config_ok_def split: sum.splits)
  from m(2) have ttl: "m div 1000 \<noteq> 0" by simp
  from assms(3) have s: "session \<in> set (sessions w)" "s_id session = p_sessionId p"
    by (auto simp add: find_Some_iff)
  then have ex: "list_ex (\<lambda>x. s_id x = p_sessionId p) (sessions w)"
    by (auto simp add: list_ex_iff)
  show thesis
    by (rule that [OF m(1) a b])
       (simp add: refreshTokens_def Let_def assms(2,3) s(2) generateAccessToken_def
          generateRefreshToken_def jwt_sign_def a b m(1) session_update_def ex
          redis_set_ex_def ttl)
qed

lemma rows_ok_blocks:
  assumes "rows_ok sid (\<lambda>h. h \<noteq> hashToken L tok) w"
    and "\<And>p. lib_jwt_decode L (JWT_REFRESH_SECRET cfg) tok = Some p \<Longrightarrow> p_sessionId p = sid"
  shows "rotation_fails (fst (refreshTokens L cfg now tok ip w))"
proof (cases "verifyRefreshToken L cfg now tok")
  case None
  then show ?thesis by (simp add: refreshTokens_def rotation_fails_def)
next
  case (Some p)
  then have "p_sessionId p = sid" by (intro assms(2) verifyRefreshToken_Some)
  with assms(1) have "find (\<lambda>s. s_id s = p_sessionId p \<and> refreshTokenHash s = hashToken L tok
                       \<and> now < expiresAt s) (sessions w) = None"
    by (auto simp add: find_None_iff rows_ok_def)
  with Some show ?thesis by (simp add: refreshTokens_no_match rotation_fails_def)
qed

text \<open>
  \<open>refreshTokens\<close> verifies under the refresh secret only, and a token that does
  not verify is refused before any store is read or written.
\<close>

lemma refreshTokens_unverified:
  "verifyRefreshToken L cfg now tok = None
     \<Longrightarrow> refreshTokens L cfg now tok ip w = (Inl InvalidRefreshToken, w)"
  by (simp add: refreshTokens_def)

text \<open>
  Outside the clock second of issue the rotation does what its comments say.
  For a session that is active and holds the digest of the presented refresh
  token, under a sound configuration, with tokens that decode to what was
  signed and a presented token that verifies at the time of the call (its
  \<open>exp\<close>, in whole seconds, is not reached): a rotation in a later clock
  second than the one the presented token was issued in succeeds and returns a
  different refresh token; and if no refresh token the server can issue has the
  digest of the presented one, then in every world reachable afterwards by
  calls at that clock reading or later, a rotation with the presented token
  fails (with \<open>InvalidRefreshToken\<close> or \<open>SessionCompromised\<close>), at any time and
  for every session.
\<close>

lemma refreshTokens_rotation:
  assumes rt: "jwt_roundtrip L" and cfg: "config_ok L cfg"
    and v: "verifyRefreshToken L cfg now tok = Some p"
    and active: "\<exists>s \<in> set (sessions w). s_id s = p_sessionId p
                   \<and> refreshTokenHash s = hashToken L tok \<and> now < expiresAt s"
    and later: "p_iat p < now div 1000"
  shows "(\<exists>t. fst (refreshTokens L cfg now tok ip w) = Inr t \<and> refreshToken t \<noteq> tok)
       \<and> (no_collision L cfg tok \<longrightarrow>
            (\<forall>w' now' ip'. reach L cfg now (snd (refreshTokens L cfg now tok ip w)) w'
               \<longrightarrow> rotation_fails (fst (refreshTokens L cfg now' tok ip' w'))))"
proof (intro conjI impI allI)
  let ?k = "JWT_REFRESH_SECRET cfg"
  have dec: "lib_jwt_decode L ?k tok = Some p" using v by (rule verifyRefreshToken_Some)
  from active obtain session where
    f: "find (\<lambda>s. s_id s = p_sessionId p \<and> refreshTokenHash s = hashToken L tok
                       \<and> now < expiresAt s) (sessions w) = Some session"
    by (cases "find (\<lambda>s. s_id s = p_sessionId p \<and> refreshTokenHash s = hashToken L tok
                       \<and> now < expiresAt s) (sessions w)") (auto simp add: find_None_iff)
  from cfg v f obtain m a b where
    "parseDuration (JWT_REFRESH_EXPIRATION cfg) = Inr m"
    "lib_ms L (JWT_ACCESS_EXPIRATION cfg) = Some a"
    "lib_ms L (JWT_REFRESH_EXPIRATION cfg) = Some b" and
    res: "refreshTokens L cfg now tok ip w =
       (Inr \<lparr>accessToken = lib_jwt_encode L (JWT_ACCESS_SECRET cfg)
                \<lparr>p_userId = s_userId session, p_sessionId = p_sessionId p,
                 p_iat = now div 1000, p_exp = now div 1000 + a div 1000\<rparr>,
              refreshToken = lib_jwt_encode L ?k
                \<lparr>p_userId = s_userId session, p_sessionId = p_sessionId p,
                 p_iat = now div 1000, p_exp = now div 1000 + b div 1000\<rparr>,
              expiresIn = 900\<rparr>,
        w\<lparr>sessions := map (\<lambda>x. if s_id x = p_sessionId p
                                 then x\<lparr>refreshTokenHash :=
                                          hashToken L (lib_jwt_encode L ?k
                                            \<lparr>p_userId = s_userId session, p_sessionId = p_sessionId p,
                                             p_iat = now div 1000, p_exp = now div 1000 + b div 1000\<rparr>),
                                        ipAddress := ip, expiresAt := now + m\<rparr>
                                 else x) (sessions w),
          redis := (redis w)(session_key (p_sessionId p) \<mapsto>
                      \<lparr>r_value = RString (s_userId session),
                       r_expiry = Some (now + m div 1000 * 1000)\<rparr>)\<rparr>)"
    by (rule refreshTokens_ok)
  have ne: "lib_jwt_encode L ?k
                \<lparr>p_userId = s_userId session, p_sessionId = p_sessionId p,
                 p_iat = now div 1000, p_exp = now div 1000 + b div 1000\<rparr> \<noteq> tok"
  proof (rule issued_differs [OF rt dec])
    show "p_iat p \<noteq> now div 1000" using later by simp
  qed
  show "\<exists>t. fst (refreshTokens L cfg now tok ip w) = Inr t \<and> refreshToken t \<noteq> tok"
    unfolding res using ne by simp
  fix w' now' ip'
  assume nc: "no_collision L cfg tok"
    and reach: "reach L cfg now (snd (refreshTokens L cfg now tok ip w)) w'"
  have iss: "\<And>t. now \<le> t \<Longrightarrow> issued_ok L cfg (\<lambda>h. h \<noteq> hashToken L tok) t"
    using rt nc dec later by (rule issued_ok_later)
  have "rows_ok (p_sessionId p) (\<lambda>h. h \<noteq> hashToken L tok) (snd (refreshTokens L cfg now tok ip w))"
    unfolding res using iss [of now] by (auto simp add: rows_ok_def issued_ok_def)
  with reach have "rows_ok (p_sessionId p) (\<lambda>h. h \<noteq> hashToken L tok) w'"
    using iss by (rule reach_rows)
  then show "rotation_fails (fst (refreshTokens L cfg now' tok ip' w'))"
    using dec by (intro rows_ok_blocks) simp_all
qed

text \<open>
  Inside the clock second of issue it does not.  \<open>jwt_sign\<close> is a function of the
  payload, the secret and the clock in whole seconds, and nothing else enters a
  token: a rotation in the second in which the presented token was signed, for
  the account the session belongs to, signs the same payload again.  The
  refresh token returned is the presented one, and every row of that session
  holds its digest afterwards, as before.
\<close>

lemma refreshTokens_reissues:
  assumes rt: "jwt_roundtrip L" and cfg: "config_ok L cfg"
    and tok: "generateRefreshToken L cfg t (uid, sid) = Inr tok"
    and v: "verifyRefreshToken L cfg now tok = Some p"
    and row: "find (\<lambda>s. s_id s = p_sessionId p \<and> refreshTokenHash s = hashToken L tok
                       \<and> now < expiresAt s) (sessions w) = Some session"
    and own: "s_userId session = uid"
    and same: "now div 1000 = t div 1000"
  shows "(\<exists>a. fst (refreshTokens L cfg now tok ip w)
                = Inr \<lparr>accessToken = a, refreshToken = tok, expiresIn = 900\<rparr>)
       \<and> (\<forall>s \<in> set (sessions (snd (refreshTokens L cfg now tok ip w))).
             s_id s = sid \<longrightarrow> refreshTokenHash s = hashToken L tok)"
proof -
  let ?k = "JWT_REFRESH_SECRET cfg"
  from tok obtain b0 where b0: "lib_ms L (JWT_REFRESH_EXPIRATION cfg) = Some b0"
    and t: "tok = lib_jwt_encode L ?k
               \<lparr>p_userId = uid, p_sessionId = sid,
                p_iat = t div 1000, p_exp = t div 1000 + b0 div 1000\<rparr>"
    by (auto simp add: generateRefreshToken_def dest!: jwt_sign_Inr)
  have "lib_jwt_decode L ?k tok = Some p" using v by (rule verifyRefreshToken_Some)
  with rt have p: "p = \<lparr>p_userId = uid, p_sessionId = sid,
                p_iat = t div 1000, p_exp = t div 1000 + b0 div 1000\<rparr>"
    by (simp add: t jwt_roundtrip_def)
  from cfg v row obtain m a b where
    "parseDuration (JWT_REFRESH_EXPIRATION cfg) = Inr m"
    "lib_ms L (JWT_ACCESS_EXPIRATION cfg) = Some a"
    and b: "lib_ms L (JWT_REFRESH_EXPIRATION cfg) = Some b" and
    res: "refreshTokens L cfg now tok ip w =
       (Inr \<lparr>accessToken = lib_jwt_encode L (JWT_ACCESS_SECRET cfg)
                \<lparr>p_userId = s_userId session, p_sessionId = p_sessionId p,
                 p_iat = now div 1000, p_exp = now div 1000 + a div 1000\<rparr>,
              refreshToken = lib_jwt_encode L ?k
                \<lparr>p_userId = s_userId session, p_sessionId = p_sessionId p,
                 p_iat = now div 1000, p_exp = now div 1000 + b div 1000\<rparr>,
              expiresIn = 900\<rparr>,
        w\<lparr>sessions := map (\<lambda>x. if s_id x = p_sessionId p
                                 then x\<lparr>refreshTokenHash :=
                                          hashToken L (lib_jwt_encode L ?k
                                            \<lparr>p_userId = s_userId session, p_sessionId = p_sessionId p,
                                             p_iat = now div 1000, p_exp = now div 1000 + b div 1000\<rparr>),
                                        ipAddress := ip, expiresAt := now + m\<rparr>
                                 else x) (sessions w),
          redis := (redis w)(session_key (p_sessionId p) \<mapsto>
                      \<lparr>r_value = RString (s_userId session),
                       r_expiry = Some (now + m div 1000 * 1000)\<rparr>)\<rparr>)"
    by (rule refreshTokens_ok)
  from b b0 have bb: "b = b0" by simp
  have sid: "p_sessionId p = sid" by (simp add: p)
  have new: "lib_jwt_encode L ?k
                \<lparr>p_userId = s_userId session, p_sessionId = sid,
                 p_iat = now div 1000, p_exp = now div 1000 + b div 1000\<rparr> = tok"
    by (simp add: t own same bb)
  have "fst (refreshTokens L cfg now tok ip w)
          = Inr \<lparr>accessToken = lib_jwt_encode L (JWT_ACCESS_SECRET cfg)
                   \<lparr>p_userId = s_userId session, p_sessionId = sid,
                    p_iat = now div 1000, p_exp = now div 1000 + a div 1000\<rparr>,
                 refreshToken = tok, expiresIn = 900\<rparr>"
    unfolding res by (simp add: sid new)
  then have 1: "\<exists>a. fst (refreshTokens L cfg now tok ip w)
                = Inr \<lparr>accessToken = a, refreshToken = tok, expiresIn = 900\<rparr>"
    by (rule exI)
  have ss: "sessions (snd (refreshTokens L cfg now tok ip w))
      = map (\<lambda>x. if s_id x = sid
                    then x\<lparr>refreshTokenHash := hashToken L tok, ipAddress := ip, expiresAt := now + m\<rparr>
                    else x) (sessions w)"
    unfolding res by (simp add: sid new)
  have 2: "\<forall>s \<in> set (sessions (snd (refreshTokens L cfg now tok ip w))).
             s_id s = sid \<longrightarrow> refreshTokenHash s = hashToken L tok"
  proof (intro ballI impI)
    fix s
    assume "s \<in> set (sessions (snd (refreshTokens L cfg now tok ip w)))" and id: "s_id s = sid"
    then have "s \<in> (\<lambda>x. if s_id x = sid
                   then x\<lparr>refreshTokenHash := hashToken L tok, ipAddress := ip, expiresAt := now + m\<rparr>
                   else x) ` set (sessions w)"
      by (simp only: ss set_map)
    then obtain x where x: "x \<in> set (sessions w)"
      and s: "s = (if s_id x = sid
                   then x\<lparr>refreshTokenHash := hashToken L tok, ipAddress := ip, expiresAt := now + m\<rparr>
                   else x)"
      by (rule imageE)
    show "refreshTokenHash s = hashToken L tok"
    proof (cases "s_id x = sid")
      case True
      with s show ?thesis by simp
    next
      case False
      with s id show ?thesis by simp
    qed
  qed
  from 1 2 show ?thesis by (rule conjI)
qed

text \<open>
  The row keeps its expiry in milliseconds, the token in whole seconds.  A
  session created at 6.999 s has a row that is active until 2592006.999 s and
  a refresh token that expires at 2592006 s: at 2592006.500 s the row is
  still active and holds the digest of the token, and the rotation is refused
  with \<open>InvalidRefreshToken\<close>, the world unchanged.
\<close>

lemma demo_last_second:
  "sessions (snd (createSession demo_lib demo_cfg ''s1'' 6999 ''u1'' None ''10.0.0.1'' demo_world_user))
     = [demo_session ''s1'' ''u1'' (hashToken demo_lib (demo_refresh ''u1'' ''s1'' 6 2592006))
          6999 2592006999]
   \<and> fst (createSession demo_lib demo_cfg ''s1'' 6999 ''u1'' None ''10.0.0.1'' demo_world_user)
       = Inr (demo_tokens ''u1'' ''s1'' 6)
   \<and> refreshTokens demo_lib demo_cfg 2592006500 (refreshToken (demo_tokens ''u1'' ''s1'' 6)) ''10.0.0.1''
        (snd (createSession demo_lib demo_cfg ''s1'' 6999 ''u1'' None ''10.0.0.1'' demo_world_user))
       = (Inl InvalidRefreshToken,
          snd (createSession demo_lib demo_cfg ''s1'' 6999 ''u1'' None ''10.0.0.1'' demo_world_user))"
proof -
  have "verifyRefreshToken demo_lib demo_cfg 2592006500 (demo_refresh ''u1'' ''s1'' 6 2592006) = None"
    by (simp add: verifyRefreshToken_def jwt_verify_def demo_refresh_def demo_decode_lib)
  then have "\<And>w. refreshTokens demo_lib demo_cfg 2592006500 (demo_refresh ''u1'' ''s1'' 6 2592006) ''10.0.0.1'' w
       = (Inl InvalidRefreshToken, w)"
    by (rule refreshTokens_unverified)
  then show ?thesis
    by (simp add: demo_world_user_def demo_session_eval demo_tokens_def)
qed

lemma demo_active_sessions:
  "sessions (demo_world_active demo_lib)
     = [demo_session ''s1'' ''u1'' (hashToken demo_lib (demo_refresh ''u1'' ''s1'' 6 2592006))
          6000 2592006000]"
  by (simp add: demo_world_active_def demo_world_user_def demo_session_eval)

lemma demo_active_refresh_same_second:
  assumes "sessions w = [demo_session ''s1'' ''u1'' (hashToken demo_lib (demo_refresh ''u1'' ''s1'' 6 2592006))
          6000 e]" "6000 < now" "now < 7000" "now < e"
  shows "fst (refreshTokens demo_lib demo_cfg now (demo_refresh ''u1'' ''s1'' 6 2592006) ip w)
           = Inr (demo_tokens ''u1'' ''s1'' 6)"
    and "sessions (snd (refreshTokens demo_lib demo_cfg now (demo_refresh ''u1'' ''s1'' 6 2592006) ip w))
           = [(demo_session ''s1'' ''u1'' (hashToken demo_lib (demo_refresh ''u1'' ''s1'' 6 2592006))
                6000 (now + 2592000000))\<lparr>ipAddress := ip\<rparr>]"
proof -
  have d: "now div 1000 = 6" using assms(2,3) by simp
  have v: "verifyRefreshToken demo_lib demo_cfg now (demo_refresh ''u1'' ''s1'' 6 2592006)
             = Some \<lparr>p_userId = ''u1'', p_sessionId = ''s1'', p_iat = 6, p_exp = 2592006\<rparr>"
    by (rule demo_verify_refresh) (simp add: d)
  have f: "find (\<lambda>s. s_id s = p_sessionId \<lparr>p_userId = ''u1'', p_sessionId = ''s1'', p_iat = 6, p_exp = 2592006\<rparr>
                  \<and> refreshTokenHash s = hashToken demo_lib (demo_refresh ''u1'' ''s1'' 6 2592006)
                  \<and> now < expiresAt s) (sessions w)
             = Some (demo_session ''s1'' ''u1'' (hashToken demo_lib (demo_refresh ''u1'' ''s1'' 6 2592006))
                       6000 e)"
    using assms(4) by (simp add: assms(1) demo_session_def)
  from demo_config_ok v f obtain m a b where
    m: "parseDuration (JWT_REFRESH_EXPIRATION demo_cfg) = Inr m"
    and a: "lib_ms demo_lib (JWT_ACCESS_EXPIRATION demo_cfg) = Some a"
    and b: "lib_ms demo_lib (JWT_REFRESH_EXPIRATION demo_cfg) = Some b"
    and res: "refreshTokens demo_lib demo_cfg now (demo_refresh ''u1'' ''s1'' 6 2592006) ip w =
       (Inr \<lparr>accessToken = lib_jwt_encode demo_lib (JWT_ACCESS_SECRET demo_cfg)
                \<lparr>p_userId = s_userId (demo_session ''s1'' ''u1'' (hashToken demo_lib (demo_refresh ''u1'' ''s1'' 6 2592006)) 6000 e),
                 p_sessionId = p_sessionId \<lparr>p_userId = ''u1'', p_sessionId = ''s1'', p_iat = 6, p_exp = 2592006\<rparr>,
                 p_iat = now div 1000, p_exp = now div 1000 + a div 1000\<rparr>,
              refreshToken = lib_jwt_encode demo_lib (JWT_REFRESH_SECRET demo_cfg)
                \<lparr>p_userId = s_userId (demo_session ''s1'' ''u1'' (hashToken demo_lib (demo_refresh ''u1'' ''s1'' 6 2592006)) 6000 e),
                 p_sessionId = p_sessionId \<lparr>p_userId = ''u1'', p_sessionId = ''s1'', p_iat = 6, p_exp = 2592006\<rparr>,
                 p_iat = now div 1000, p_exp = now div 1000 + b div 1000\<rparr>,
              expiresIn = 900\<rparr>,
        w\<lparr>sessions := map (\<lambda>x. if s_id x = p_sessionId \<lparr>p_userId = ''u1'', p_sessionId = ''s1'', p_iat = 6, p_exp = 2592006\<rparr>
                                 then x\<lparr>refreshTokenHash :=
                                          hashToken demo_lib (lib_jwt_encode demo_lib (JWT_REFRESH_SECRET demo_cfg)
                                            \<lparr>p_userId = s_userId (demo_session ''s1'' ''u1'' (hashToken demo_lib (demo_refresh ''u1'' ''s1'' 6 2592006)) 6000 e),
                                             p_sessionId = p_sessionId \<lparr>p_userId = ''u1'', p_sessionId = ''s1'', p_iat = 6, p_exp = 2592006\<rparr>,
                                             p_iat = now div 1000, p_exp = now div 1000 + b div 1000\<rparr>),
                                        ipAddress := ip, expiresAt := now + m\<rparr>
                                 else x) (sessions w),
          redis := (redis w)(session_key (p_sessionId \<lparr>p_userId = ''u1'', p_sessionId = ''s1'', p_iat = 6, p_exp = 2592006\<rparr>) \<mapsto>
                      \<lparr>r_value = RString (s_userId (demo_session ''s1'' ''u1'' (hashToken demo_lib (demo_refresh ''u1'' ''s1'' 6 2592006)) 6000 e)),
                       r_expiry = Some (now + m div 1000 * 1000)\<rparr>)\<rparr>)"
    by (rule refreshTokens_ok)
  have mab: "m = 2592000000" "a = 900000" "b = 2592000000"
    using m a b by (simp_all add: demo_cfg_def parseDuration_30d demo_ms)
  show "fst (refreshTokens demo_lib demo_cfg now (demo_refresh ''u1'' ''s1'' 6 2592006) ip w)
           = Inr (demo_tokens ''u1'' ''s1'' 6)"
    unfolding res
    by (simp add: d mab demo_tokens_def demo_access_def demo_refresh_def demo_session_def)
  show "sessions (snd (refreshTokens demo_lib demo_cfg now (demo_refresh ''u1'' ''s1'' 6 2592006) ip w))
           = [(demo_session ''s1'' ''u1'' (hashToken demo_lib (demo_refresh ''u1'' ''s1'' 6 2592006))
                6000 (now + 2592000000))\<lparr>ipAddress := ip\<rparr>]"
    unfolding res
    by (simp add: d mab assms(1) demo_refresh_def demo_session_def)
qed

text \<open>
  Claim C3, evaluated on one input.  The claim: a rotation with the refresh
  token whose digest the session holds returns a different refresh token, and
  the presented one never rotates again.  Account \<open>u1\<close> signs in at 6.000 s
  and rotates the refresh token it got at 6.500 s.  The clock second is the
  same, so the payload and with it the token are the same: the rotation
  returns the very token that was presented (the whole pair, in fact), the
  stored digest does not change, and the same token rotates again at 6.900 s.
  The code means to rotate (\<^verbatim>\<open>Generate new tokens (refresh token rotation)\<close>,
  \<^verbatim>\<open>Update session with new refresh token\<close>) and does not on this input.
\<close>

theorem refreshTokens_same_second:
  "fst (createSession demo_lib demo_cfg ''s1'' 6000 ''u1'' None ''10.0.0.1'' demo_world_user)
     = Inr (demo_tokens ''u1'' ''s1'' 6)
   \<and> fst (refreshTokens demo_lib demo_cfg 6500 (refreshToken (demo_tokens ''u1'' ''s1'' 6)) ''10.0.0.1''
            (demo_world_active demo_lib))
     = Inr (demo_tokens ''u1'' ''s1'' 6)
   \<and> fst (refreshTokens demo_lib demo_cfg 6900 (refreshToken (demo_tokens ''u1'' ''s1'' 6)) ''10.0.0.1''
            (snd (refreshTokens demo_lib demo_cfg 6500 (refreshToken (demo_tokens ''u1'' ''s1'' 6))
                    ''10.0.0.1'' (demo_world_active demo_lib))))
     = Inr (demo_tokens ''u1'' ''s1'' 6)"
proof -
  have t: "refreshToken (demo_tokens ''u1'' ''s1'' 6) = demo_refresh ''u1'' ''s1'' 6 2592006"
    by (simp add: demo_tokens_def)
  have c: "fst (createSession demo_lib demo_cfg ''s1'' 6000 ''u1'' None ''10.0.0.1'' demo_world_user)
     = Inr (demo_tokens ''u1'' ''s1'' 6)"
    by (simp add: demo_world_user_def demo_session_eval)
  note r1 = demo_active_refresh_same_second [OF demo_active_sessions, of 6500 "''10.0.0.1''"]
  have s1: "sessions (snd (refreshTokens demo_lib demo_cfg 6500 (demo_refresh ''u1'' ''s1'' 6 2592006)
                             ''10.0.0.1'' (demo_world_active demo_lib)))
      = [demo_session ''s1'' ''u1'' (hashToken demo_lib (demo_refresh ''u1'' ''s1'' 6 2592006))
                6000 2592006500]"
    using r1(2) by (simp add: demo_session_def)
  note r2 = demo_active_refresh_same_second [OF s1, of 6900 "''10.0.0.1''"]
  show ?thesis using c r1(1) r2(1) by (simp add: t)
qed

lemma to_hex_last: "0 < n \<Longrightarrow> last (to_hex n v) = hex_digit (v mod 16)"
  by (cases n) (simp_all add: to_hex_def last_map last_rev)

lemma to_hex_0_1: "to_hex 64 0 \<noteq> to_hex 64 1"
proof
  assume "to_hex 64 0 = to_hex 64 1"
  then have "last (to_hex 64 0) = last (to_hex 64 1)" by simp
  then show False by (simp add: to_hex_last hex_digit_def)
qed

lemma demo_marked_hash:
  "(hashToken demo_marked x = hashToken demo_marked (demo_refresh ''u1'' ''s1'' 6 2592006))
     = (x = demo_refresh ''u1'' ''s1'' 6 2592006)"
  using to_hex_0_1 by (auto simp add: hashToken_def demo_marked_def)

lemma demo_marked_codec:
  "lib_jwt_encode demo_marked = lib_jwt_encode demo_lib"
  "lib_jwt_decode demo_marked = lib_jwt_decode demo_lib"
  "lib_ms demo_marked = lib_ms demo_lib"
  by (simp_all add: demo_marked_def)

lemma demo_marked_roundtrip: "jwt_roundtrip demo_marked"
  using demo_jwt_roundtrip by (simp add: jwt_roundtrip_def demo_marked_codec)

lemma demo_marked_config_ok: "config_ok demo_marked demo_cfg"
  using demo_config_ok by (simp add: config_ok_def demo_marked_codec)

lemma demo_marked_no_collision:
  "no_collision demo_marked demo_cfg (demo_refresh ''u1'' ''s1'' 6 2592006)"
  by (simp add: no_collision_def demo_marked_hash)

lemma demo_marked_verify:
  "verifyRefreshToken demo_marked demo_cfg 7500 (demo_refresh ''u1'' ''s1'' 6 2592006)
     = Some \<lparr>p_userId = ''u1'', p_sessionId = ''s1'', p_iat = 6, p_exp = 2592006\<rparr>"
  using demo_verify_refresh [of 7500 2592006 "''u1''" "''s1''" 6]
  by (simp add: verifyRefreshToken_def jwt_verify_def demo_marked_codec)

lemma demo_marked_active:
  "sessions (demo_world_active demo_marked)
     = [demo_session ''s1'' ''u1'' (hashToken demo_marked (demo_refresh ''u1'' ''s1'' 6 2592006))
          6000 2592006000]"
  by (simp add: demo_world_active_def demo_world_user_def demo_session_eval demo_marked_def)

text \<open>
  The rotation lemma at work: the session of the example above, rotated at
  7.500 s, under a digest that sets the presented token apart.
\<close>

lemma refreshTokens_rotation_example:
  "verifyRefreshToken demo_marked demo_cfg 7500 (demo_refresh ''u1'' ''s1'' 6 2592006)
     = Some \<lparr>p_userId = ''u1'', p_sessionId = ''s1'', p_iat = 6, p_exp = 2592006\<rparr>
   \<and> no_collision demo_marked demo_cfg (demo_refresh ''u1'' ''s1'' 6 2592006)
   \<and> (\<exists>t. fst (refreshTokens demo_marked demo_cfg 7500 (demo_refresh ''u1'' ''s1'' 6 2592006)
                   ''10.0.0.1'' (demo_world_active demo_marked)) = Inr t
          \<and> refreshToken t \<noteq> demo_refresh ''u1'' ''s1'' 6 2592006)
   \<and> rotation_fails
        (fst (refreshTokens demo_marked demo_cfg 9000 (demo_refresh ''u1'' ''s1'' 6 2592006) ''10.0.0.7''
                (snd (refreshTokens demo_marked demo_cfg 7500 (demo_refresh ''u1'' ''s1'' 6 2592006)
                        ''10.0.0.1'' (demo_world_active demo_marked)))))
   \<and> rotation_fails
        (fst (refreshTokens demo_marked demo_cfg 9000 (demo_refresh ''u1'' ''s1'' 6 2592006) ''10.0.0.7''
                (logout ''s9''
                   (snd (refreshTokens demo_marked demo_cfg 7500 (demo_refresh ''u1'' ''s1'' 6 2592006)
                           ''10.0.0.1'' (demo_world_active demo_marked))))))"
proof -
  let ?tok = "demo_refresh ''u1'' ''s1'' 6 2592006"
  let ?p = "\<lparr>p_userId = ''u1'', p_sessionId = ''s1'', p_iat = 6, p_exp = 2592006\<rparr>"
  let ?R = "refreshTokens demo_marked demo_cfg 7500 ?tok ''10.0.0.1'' (demo_world_active demo_marked)"
  have active: "\<exists>s \<in> set (sessions (demo_world_active demo_marked)). s_id s = p_sessionId ?p
                   \<and> refreshTokenHash s = hashToken demo_marked ?tok \<and> 7500 < expiresAt s"
    by (simp add: demo_marked_active demo_session_def)
  have later: "p_iat ?p < 7500 div 1000" by simp
  note t = refreshTokens_rotation [OF demo_marked_roundtrip demo_marked_config_ok demo_marked_verify
      active later, of "''10.0.0.1''"]
  from t have 1: "\<exists>t. fst ?R = Inr t \<and> refreshToken t \<noteq> ?tok" by (rule conjunct1)
  from t demo_marked_no_collision
  have all: "\<And>w' now' ip'. reach demo_marked demo_cfg 7500 (snd ?R) w'
               \<Longrightarrow> rotation_fails (fst (refreshTokens demo_marked demo_cfg now' ?tok ip' w'))"
    by blast
  have 2: "rotation_fails (fst (refreshTokens demo_marked demo_cfg 9000 ?tok ''10.0.0.7'' (snd ?R)))"
    by (rule all) (rule reach_start)
  have 3: "rotation_fails (fst (refreshTokens demo_marked demo_cfg 9000 ?tok ''10.0.0.7''
                                  (logout ''s9'' (snd ?R))))"
    by (rule all) (rule reach_logout, rule reach_start)
  from 1 2 3 demo_marked_verify demo_marked_no_collision show ?thesis by simp
qed

section \<open>Token kinds\<close>





end
